theory Spec2Isabelle
  imports Complex_Main "HOL-Library.AList" "HOL-Library.Multiset" "HOL-Library.Sublist"
begin

section \<open>BizOps: revenue analytics pipeline of BizOps.go\<close>

text \<open>
  The embedding follows \<^verbatim>\<open>src/BizOps.go\<close>. Three conventions hold throughout.

  \<^item> A \<^verbatim>\<open>float64\<close> is an IEEE 754 binary64 value, the type \<open>f64\<close> below. Every
    arithmetic operation of the program is one operation on \<open>f64\<close>, rounded to nearest
    with ties to even, in the order in which the source writes it. A product and the sum
    that consumes it are rounded separately, which is what the Go compiler emits for
    amd64; the language lets a compiler fuse the two into one rounding, and the Go
    compiler does so on some other architectures.
  \<^item> Functions of the Go standard library (\<^verbatim>\<open>encoding/csv\<close>, \<^verbatim>\<open>time\<close>, \<^verbatim>\<open>strconv\<close>,
    \<^verbatim>\<open>sort\<close>, \<^verbatim>\<open>strings.ToLower\<close>) are not part of the program. They are fields of
    the record \<open>Lib\<close> and the theorems hold for every library that meets the stated
    contract. The string functions that decide a claim (\<^verbatim>\<open>TrimSpace\<close>,
    \<^verbatim>\<open>Contains\<close>, \<^verbatim>\<open>ReplaceAll\<close>) are written out on bytes.
  \<^item> The order in which \<^verbatim>\<open>range\<close> visits a Go map is not fixed by the language; it
    is the record \<open>MapOrder\<close>.
\<close>

subsection \<open>Binary64 arithmetic\<close>

text \<open>
  A finite value carries the real number it denotes; the two zeros are one value (the
  program never divides by a zero: both of its divisions by a computed quantity are
  guarded). \<open>rnd\<close> rounds a real to the nearest binary64 value, ties to even: the unit
  in the last place of \<open>x\<close> is \<open>2\<close> to the power \<open>ulp_exp x\<close>, which is 52 below the
  binary exponent of \<open>x\<close> and never below \<open>-1074\<close> (the subnormal range); a rounded
  magnitude of \<open>2 ^ 1024\<close> or more overflows to an infinity.
\<close>

datatype f64 = Fin real | PInf | NInf | NaN

definition round_even :: "real \<Rightarrow> int" where
  "round_even r =
     (let f = \<lfloor>r\<rfloor> in
      if r - of_int f < 1 / 2 then f
      else if 1 / 2 < r - of_int f then f + 1
      else if even f then f else f + 1)"

definition ulp_exp :: "real \<Rightarrow> int" where
  "ulp_exp x = max (\<lfloor>log 2 \<bar>x\<bar>\<rfloor> - 52) (- 1074)"

definition rnd :: "real \<Rightarrow> f64" where
  "rnd x =
     (if x = 0 then Fin 0
      else
        let y = of_int (round_even (x / 2 powr of_int (ulp_exp x))) * 2 powr of_int (ulp_exp x)
        in if 2 ^ 1024 \<le> \<bar>y\<bar> then (if 0 < x then PInf else NInf) else Fin y)"

fun fneg :: "f64 \<Rightarrow> f64" where
  "fneg (Fin x) = Fin (- x)"
| "fneg PInf = NInf"
| "fneg NInf = PInf"
| "fneg NaN = NaN"

fun fadd :: "f64 \<Rightarrow> f64 \<Rightarrow> f64" where
  "fadd (Fin x) (Fin y) = rnd (x + y)"
| "fadd NaN b = NaN"
| "fadd a NaN = NaN"
| "fadd PInf NInf = NaN"
| "fadd NInf PInf = NaN"
| "fadd PInf b = PInf"
| "fadd a PInf = PInf"
| "fadd NInf b = NInf"
| "fadd a NInf = NInf"

definition fsub :: "f64 \<Rightarrow> f64 \<Rightarrow> f64" where
  "fsub a b = fadd a (fneg b)"

fun fmul :: "f64 \<Rightarrow> f64 \<Rightarrow> f64" where
  "fmul (Fin x) (Fin y) = rnd (x * y)"
| "fmul NaN b = NaN"
| "fmul a NaN = NaN"
| "fmul (Fin x) PInf = (if x = 0 then NaN else if 0 < x then PInf else NInf)"
| "fmul (Fin x) NInf = (if x = 0 then NaN else if 0 < x then NInf else PInf)"
| "fmul PInf (Fin y) = (if y = 0 then NaN else if 0 < y then PInf else NInf)"
| "fmul NInf (Fin y) = (if y = 0 then NaN else if 0 < y then NInf else PInf)"
| "fmul PInf PInf = PInf"
| "fmul PInf NInf = NInf"
| "fmul NInf PInf = NInf"
| "fmul NInf NInf = PInf"

fun fdiv :: "f64 \<Rightarrow> f64 \<Rightarrow> f64" where
  "fdiv (Fin x) (Fin y) =
     (if y = 0 then (if x = 0 then NaN else if 0 < x then PInf else NInf) else rnd (x / y))"
| "fdiv NaN b = NaN"
| "fdiv a NaN = NaN"
| "fdiv (Fin x) PInf = Fin 0"
| "fdiv (Fin x) NInf = Fin 0"
| "fdiv PInf (Fin y) = (if 0 \<le> y then PInf else NInf)"
| "fdiv NInf (Fin y) = (if 0 \<le> y then NInf else PInf)"
| "fdiv PInf PInf = NaN"
| "fdiv PInf NInf = NaN"
| "fdiv NInf PInf = NaN"
| "fdiv NInf NInf = NaN"

text \<open>\<^verbatim>\<open>math.Sqrt\<close>, correctly rounded as IEEE 754 requires, and \<^verbatim>\<open>math.Abs\<close>.\<close>

fun fsqrt :: "f64 \<Rightarrow> f64" where
  "fsqrt (Fin x) = (if x < 0 then NaN else rnd (sqrt x))"
| "fsqrt PInf = PInf"
| "fsqrt NInf = NaN"
| "fsqrt NaN = NaN"

fun fabs :: "f64 \<Rightarrow> f64" where
  "fabs (Fin x) = Fin \<bar>x\<bar>"
| "fabs PInf = PInf"
| "fabs NInf = PInf"
| "fabs NaN = NaN"

text \<open>The comparisons \<^verbatim>\<open><\<close>, \<^verbatim>\<open><=\<close> and \<^verbatim>\<open>==\<close>: false whenever an operand is NaN.\<close>

fun flt :: "f64 \<Rightarrow> f64 \<Rightarrow> bool" where
  "flt (Fin x) (Fin y) = (x < y)"
| "flt NaN b = False"
| "flt a NaN = False"
| "flt PInf b = False"
| "flt a NInf = False"
| "flt a PInf = True"
| "flt NInf b = True"

fun fle :: "f64 \<Rightarrow> f64 \<Rightarrow> bool" where
  "fle (Fin x) (Fin y) = (x \<le> y)"
| "fle NaN b = False"
| "fle a NaN = False"
| "fle a PInf = True"
| "fle NInf b = True"
| "fle PInf b = False"
| "fle a NInf = False"

fun feq :: "f64 \<Rightarrow> f64 \<Rightarrow> bool" where
  "feq NaN b = False"
| "feq a NaN = False"
| "feq a b = (a = b)"

text \<open>The conversion \<^verbatim>\<open>float64(n)\<close> of a non-negative \<^verbatim>\<open>int\<close>.\<close>

definition of_nat64 :: "nat \<Rightarrow> f64" where
  "of_nat64 n = rnd (real n)"

text \<open>
  The binary64 value \<open>m / 2 ^ k\<close>, for writing values down; the real number a value
  denotes (0 for an infinity or NaN); and the values that are whole numbers.
\<close>

definition dy :: "int \<Rightarrow> nat \<Rightarrow> f64" where
  "dy m k = Fin (of_int m / 2 ^ k)"

definition val :: "f64 \<Rightarrow> real" where
  "val v = (case v of Fin x \<Rightarrow> x | PInf \<Rightarrow> 0 | NInf \<Rightarrow> 0 | NaN \<Rightarrow> 0)"

definition whole :: "f64 \<Rightarrow> bool" where
  "whole v = (case v of Fin x \<Rightarrow> of_int \<lfloor>x\<rfloor> = x | PInf \<Rightarrow> False | NInf \<Rightarrow> False | NaN \<Rightarrow> False)"

subsection \<open>Data model\<close>

text \<open>
  \<^verbatim>\<open>time.Time\<close>: the instant, in nanoseconds since January 1, year 1, 00:00:00 UTC.
  \<^verbatim>\<open>Before\<close> and \<^verbatim>\<open>IsZero\<close> read nothing else.
\<close>

record Time =
  instant :: int

definition Before :: "Time \<Rightarrow> Time \<Rightarrow> bool" where
  "Before t u = (instant t < instant u)"

definition IsZero :: "Time \<Rightarrow> bool" where
  "IsZero t = (instant t = 0)"

definition zeroTime :: Time where
  "zeroTime = \<lparr>instant = 0\<rparr>"

text \<open>\<^verbatim>\<open>time.Date(y, m, d, 0, 0, 0, 0, time.UTC)\<close>, used to write dates down.\<close>

definition daysSinceYear1 :: "int \<Rightarrow> int \<Rightarrow> int \<Rightarrow> int" where
  "daysSinceYear1 y m d =
     (let y' = (if m \<le> 2 then y - 1 else y);
          era = y' div 400;
          yoe = y' - era * 400;
          mp = (if m > 2 then m - 3 else m + 9);
          doy = (153 * mp + 2) div 5 + d - 1;
          doe = yoe * 365 + yoe div 4 - yoe div 100 + doy
      in era * 146097 + doe - 306)"

definition DateUTC :: "int \<Rightarrow> int \<Rightarrow> int \<Rightarrow> Time" where
  "DateUTC y m d = \<lparr>instant = daysSinceYear1 y m d * 86400 * 1000000000\<rparr>"

record Sale =
  Date :: Time
  Customer :: string
  Product :: string
  Amount :: f64
  Status :: string

record KVf =
  Key :: string
  Value :: f64

record KVt =
  Day :: Time
  Value :: f64

record Anomaly =
  Day :: Time
  Value :: f64
  Z :: f64

text \<open>
  A suggestion is one of the seven format strings of \<^verbatim>\<open>suggestions\<close> together with
  the arguments \<^verbatim>\<open>fmt.Sprintf\<close> receives; the rendering to text is not modelled.
\<close>

datatype Suggestion =
    Dunning nat f64
  | Bundles
  | Loyalty "KVf list"
  | DoubleDown "KVf list"
  | Dip Time f64
  | Spike Time f64
  | Steady

record KPIs =
  From :: Time
  To :: Time
  TotalRevenue :: f64
  AvgOrderValue :: f64
  Orders :: nat
  UniqueCustomers :: nat
  TopCustomers :: "KVf list"
  TopProducts :: "KVf list"
  DailyRevenue :: "KVt list"
  RetentionRate :: f64
  ForecastNext7DaysTotal :: f64
  Anomalies :: "Anomaly list"
  OverdueCount :: nat
  OverdueTotal :: f64
  Suggestions :: "Suggestion list"
  ExecSummary :: string

text \<open>
  The errors of \<^verbatim>\<open>encoding/csv\<close> (the position they carry is dropped) and the two
  errors of \<^verbatim>\<open>parseCSV\<close>: the wrapped read error and "csv has no data rows".
\<close>

datatype csv_error = ErrBareQuote | ErrQuote | ErrFieldCount | ErrRead

datatype error = CsvRead csv_error | NoDataRows

subsection \<open>Standard library\<close>

text \<open>
  \<open>ReadAll\<close> is \<^verbatim>\<open>csv.Reader.ReadAll\<close> with \<^verbatim>\<open>TrimLeadingSpace\<close> on the input
  bytes (the records and the error, if any); \<open>Parse\<close> is \<^verbatim>\<open>time.Parse\<close>
  (\<open>None\<close> when it reports an error); \<open>ParseFloat\<close> is the value
  \<^verbatim>\<open>strconv.ParseFloat\<close> returns, its error being discarded by the program;
  \<open>Format\<close> is \<^verbatim>\<open>Time.Format\<close>; \<open>ISOWeek\<close> is \<^verbatim>\<open>Time.ISOWeek\<close>; \<open>ToLower\<close> is
  \<^verbatim>\<open>strings.ToLower\<close>, which lower-cases every Unicode letter; the three sorts are
  the three calls of \<^verbatim>\<open>sort.Slice\<close>.
\<close>

record Lib =
  ReadAll :: "string \<Rightarrow> string list list \<times> csv_error option"
  Parse :: "string \<Rightarrow> string \<Rightarrow> Time option"
  ParseFloat :: "string \<Rightarrow> f64"
  Format :: "string \<Rightarrow> Time \<Rightarrow> string"
  ISOWeek :: "Time \<Rightarrow> int \<times> int"
  ToLower :: "string \<Rightarrow> string"
  sortSales :: "Sale list \<Rightarrow> Sale list"
  sortDaily :: "KVt list \<Rightarrow> KVt list"
  sortTop :: "KVf list \<Rightarrow> KVf list"

text \<open>
  \<open>rangeHeader i key\<close> orders the entries of the header map for the call
  \<^verbatim>\<open>get(row, key)\<close> on data row \<open>i\<close>; \<open>rangeTotals m\<close> orders the entries of the
  map named \<open>m\<close> in \<^verbatim>\<open>computeKPIs\<close>.
\<close>

record MapOrder =
  rangeHeader :: "nat \<Rightarrow> string \<Rightarrow> (string \<times> nat) list \<Rightarrow> (string \<times> nat) list"
  rangeTotals :: "string \<Rightarrow> (string \<times> f64) list \<Rightarrow> (string \<times> f64) list"

text \<open>
  What \<^verbatim>\<open>sort.Slice\<close> documents: the slice is reordered so that no element is
  less than one placed before it. It is documented as not guaranteed to be stable.
  What \<^verbatim>\<open>range\<close> documents: every entry is visited once. Lower-casing a lower-cased
  string changes nothing.
\<close>

definition sort_contract :: "('a \<Rightarrow> 'a \<Rightarrow> bool) \<Rightarrow> ('a list \<Rightarrow> 'a list) \<Rightarrow> bool" where
  "sort_contract lt srt =
     (\<forall>xs. mset (srt xs) = mset xs \<and> sorted_wrt (\<lambda>a b. \<not> lt b a) (srt xs))"

definition range_contract :: "('a list \<Rightarrow> 'a list) \<Rightarrow> bool" where
  "range_contract rng = (\<forall>xs. mset (rng xs) = mset xs)"

definition lower_contract :: "(string \<Rightarrow> string) \<Rightarrow> bool" where
  "lower_contract low = (\<forall>s. low (low s) = low s)"

definition sales_less :: "Sale \<Rightarrow> Sale \<Rightarrow> bool" where
  "sales_less a b = Before (Date a) (Date b)"

definition daily_less :: "KVt \<Rightarrow> KVt \<Rightarrow> bool" where
  "daily_less a b = Before (KVt.Day a) (KVt.Day b)"

subsection \<open>Strings\<close>

text \<open>Strings are byte lists, as in Go.\<close>

fun HasPrefix :: "string \<Rightarrow> string \<Rightarrow> bool" where
  "HasPrefix s [] = True"
| "HasPrefix [] (p # ps) = False"
| "HasPrefix (c # s) (p # ps) = (c = p \<and> HasPrefix s ps)"

fun Contains :: "string \<Rightarrow> string \<Rightarrow> bool" where
  "Contains [] sub = (sub = [])"
| "Contains (c # s) sub = (HasPrefix (c # s) sub \<or> Contains s sub)"

text \<open>
  \<^verbatim>\<open>strings.TrimSpace\<close> removes the leading and the trailing white space, as Unicode
  defines it. \<open>whiteSpace\<close> lists the UTF-8 encodings of the 25 code points with the
  property \<^verbatim>\<open>White_Space\<close>: U+0009 to U+000D, U+0020, U+0085, U+00A0, U+1680, U+2000 to
  U+200A, U+2028, U+2029, U+202F, U+205F and U+3000. \<open>trimBy\<close> removes encodings from the
  front as long as there is one; the trailing side is the same on the reversed bytes. A
  byte that starts no such encoding, valid UTF-8 or not, stops the removal, as it stops
  Go's decoder.
\<close>

definition whiteSpace :: "string list" where
  "whiteSpace =
     map (\<lambda>c. [c]) [CHR 0x09, CHR 0x0A, CHR 0x0B, CHR 0x0C, CHR 0x0D, CHR 0x20] @
     map (\<lambda>c. [CHR 0xC2, c]) [CHR 0x85, CHR 0xA0] @
     map (\<lambda>c. [CHR 0xE1, CHR 0x9A, c]) [CHR 0x80] @
     map (\<lambda>c. [CHR 0xE2, CHR 0x80, c])
       [CHR 0x80, CHR 0x81, CHR 0x82, CHR 0x83, CHR 0x84, CHR 0x85, CHR 0x86, CHR 0x87,
        CHR 0x88, CHR 0x89, CHR 0x8A, CHR 0xA8, CHR 0xA9, CHR 0xAF] @
     map (\<lambda>c. [CHR 0xE2, CHR 0x81, c]) [CHR 0x9F] @
     map (\<lambda>c. [CHR 0xE3, CHR 0x80, c]) [CHR 0x80]"

definition spaceWidth :: "string list \<Rightarrow> string \<Rightarrow> nat" where
  "spaceWidth runes s = (case filter (HasPrefix s) runes of [] \<Rightarrow> 0 | r # rs \<Rightarrow> length r)"

function trimBy :: "string list \<Rightarrow> string \<Rightarrow> string" where
  "trimBy runes s =
     (if s = [] \<or> spaceWidth runes s = 0 then s else trimBy runes (drop (spaceWidth runes s) s))"
  by pat_completeness auto
termination
  by (relation "measure (\<lambda>(runes, s). length s)") auto

declare trimBy.simps [simp del]

definition TrimSpace :: "string \<Rightarrow> string" where
  "TrimSpace s = rev (trimBy (map rev whiteSpace) (rev (trimBy whiteSpace s)))"

text \<open>\<^verbatim>\<open>strings.ReplaceAll(s, ",", "")\<close>\<close>

definition ReplaceAll_comma :: "string \<Rightarrow> string" where
  "ReplaceAll_comma s = filter (\<lambda>c. c \<noteq> CHR '','') s"

definition nz :: "string \<Rightarrow> string \<Rightarrow> string" where
  "nz a b = (if TrimSpace a = [] then b else a)"

subsection \<open>CSV ingest\<close>

definition RFC3339 :: string where
  "RFC3339 = ''2006-01-02T15:04:05Z07:00''"

definition candidates :: "string list" where
  "candidates =
     [''2006-01-02'', ''02/01/2006'', ''01/02/2006'', ''2006/01/02'', ''2006.01.02'', RFC3339]"

text \<open>The loop over \<open>candidates\<close>: the first layout that parses returns.\<close>

fun tryLayouts :: "Lib \<Rightarrow> string list \<Rightarrow> string \<Rightarrow> Time option" where
  "tryLayouts lib [] s = None"
| "tryLayouts lib (f # fs) s =
     (case Parse lib f s of Some t \<Rightarrow> Some t | None \<Rightarrow> tryLayouts lib fs s)"

definition parseDateFlexible :: "Lib \<Rightarrow> string \<Rightarrow> Time" where
  "parseDateFlexible lib s0 =
     (let s = TrimSpace s0 in
      case tryLayouts lib candidates s of
        Some t \<Rightarrow> t
      | None \<Rightarrow> (case Parse lib ''2006-01'' s of Some t \<Rightarrow> t | None \<Rightarrow> zeroTime))"

text \<open>
  The header map \<open>h\<close>: an association list with one entry per key; a later column
  with the same key overwrites the index.
\<close>

fun header_loop :: "Lib \<Rightarrow> nat \<Rightarrow> string list \<Rightarrow> (string \<times> nat) list \<Rightarrow> (string \<times> nat) list" where
  "header_loop lib i [] h = h"
| "header_loop lib i (col # cols) h =
     header_loop lib (Suc i) cols (AList.update (ToLower lib (TrimSpace col)) i h)"

definition headerMap :: "Lib \<Rightarrow> string list \<Rightarrow> (string \<times> nat) list" where
  "headerMap lib cols = header_loop lib 0 cols []"

fun get_loop :: "(string \<times> nat) list \<Rightarrow> string list \<Rightarrow> string \<Rightarrow> string" where
  "get_loop [] row key = []"
| "get_loop ((k, idx) # rest) row key =
     (if Contains k key \<and> idx < length row then TrimSpace (row ! idx)
      else get_loop rest row key)"

definition get :: "MapOrder \<Rightarrow> (string \<times> nat) list \<Rightarrow> nat \<Rightarrow> string list \<Rightarrow> string \<Rightarrow> string" where
  "get ord h i row key = get_loop (rangeHeader ord i key h) row key"

definition mkSale :: "Lib \<Rightarrow> MapOrder \<Rightarrow> (string \<times> nat) list \<Rightarrow> nat \<Rightarrow> string list \<Rightarrow> Time \<Rightarrow> Sale" where
  "mkSale lib ord h i row dt =
     (let amtStr = get ord h i row ''amount'';
          amt = ParseFloat lib (ReplaceAll_comma (TrimSpace amtStr))
      in \<lparr>Date = dt,
          Customer = nz (get ord h i row ''customer'') ''Unknown'',
          Product = nz (get ord h i row ''product'') ''Unknown'',
          Amount = amt,
          Status = ToLower lib (get ord h i row ''status'')\<rparr>)"

text \<open>The loop over \<^verbatim>\<open>records[1:]\<close>; \<open>i\<close> counts the data rows, \<open>out\<close> is the slice built so far.\<close>

fun rows_loop :: "Lib \<Rightarrow> MapOrder \<Rightarrow> (string \<times> nat) list \<Rightarrow> nat \<Rightarrow> string list list \<Rightarrow> Sale list \<Rightarrow> Sale list" where
  "rows_loop lib ord h i [] out = out"
| "rows_loop lib ord h i (row # rest) out =
     (let ds = get ord h i row ''date'' in
      if ds = [] then rows_loop lib ord h (Suc i) rest out
      else
        let dt = parseDateFlexible lib ds in
        if IsZero dt then rows_loop lib ord h (Suc i) rest out
        else rows_loop lib ord h (Suc i) rest (out @ [mkSale lib ord h i row dt]))"

text \<open>The two results of \<^verbatim>\<open>parseCSV\<close> are a pair, as in Go: the slice and the error.\<close>

definition parseCSV :: "Lib \<Rightarrow> MapOrder \<Rightarrow> string \<Rightarrow> Sale list \<times> error option" where
  "parseCSV lib ord r =
     (let (records, err) = ReadAll lib r in
      case err of
        Some e \<Rightarrow> ([], Some (CsvRead e))
      | None \<Rightarrow>
          if length records < 2 then ([], Some NoDataRows)
          else (rows_loop lib ord (headerMap lib (hd records)) 0 (tl records) [], None))"

subsection \<open>Analytics\<close>

text \<open>
  \<^verbatim>\<open>detectAnomalies\<close>: three loops over the series. Each \<^verbatim>\<open>+=\<close>, the subtraction,
  the product, the two divisions and the square root round once.
\<close>

definition detectAnomalies :: "KVt list \<Rightarrow> Anomaly list" where
  "detectAnomalies d =
     (if length d < 7 then []
      else
        let sm = foldl (\<lambda>sm x. fadd sm (KVt.Value x)) (Fin 0) d;
            mean = fdiv sm (of_nat64 (length d));
            ss = foldl (\<lambda>ss x. fadd ss (fmul (fsub (KVt.Value x) mean) (fsub (KVt.Value x) mean)))
                   (Fin 0) d;
            std = fsqrt (fdiv ss (of_nat64 (length d)))
        in if feq std (Fin 0) then []
           else foldl (\<lambda>out x.
                  let z = fdiv (fsub (KVt.Value x) mean) std
                  in if fle (Fin 2) (fabs z)
                     then out @ [\<lparr>Anomaly.Day = KVt.Day x, Value = KVt.Value x, Z = z\<rparr>]
                     else out) [] d)"

text \<open>The counting loop of \<^verbatim>\<open>forecast7\<close>: \<^verbatim>\<open>for i := len(d)-window; i < len(d); i++\<close>.\<close>

function forecast7_loop :: "KVt list \<Rightarrow> nat \<Rightarrow> f64 \<Rightarrow> f64" where
  "forecast7_loop d i sm =
     (if i < length d then forecast7_loop d (Suc i) (fadd sm (KVt.Value (d ! i))) else sm)"
  by pat_completeness auto
termination
  by (relation "measure (\<lambda>(d, i, sm). length d - i)") auto

declare forecast7_loop.simps [simp del]

definition forecast7 :: "KVt list \<Rightarrow> f64" where
  "forecast7 d =
     (if length d = 0 then Fin 0
      else
        let window = (if length d < 7 then length d else 7);
            sm = forecast7_loop d (length d - window) (Fin 0);
            avg = fdiv sm (of_nat64 window)
        in fmul avg (Fin 7))"

definition anomaly_step :: "Suggestion list \<Rightarrow> Anomaly \<Rightarrow> Suggestion list" where
  "anomaly_step s an =
     (if flt (Z an) (Fin (- 2)) then s @ [Dip (Anomaly.Day an) (Z an)]
      else if flt (Fin 2) (Z an) then s @ [Spike (Anomaly.Day an) (Z an)]
      else s)"

definition suggestions ::
  "f64 \<Rightarrow> f64 \<Rightarrow> nat \<Rightarrow> f64 \<Rightarrow> KVf list \<Rightarrow> KVf list \<Rightarrow> Anomaly list \<Rightarrow> Suggestion list" where
  "suggestions total_rev aov overdueCount overdueTotal topC topP anoms =
     (let s = [];
          s = (if overdueCount > 0 then s @ [Dunning overdueCount overdueTotal] else s);
          s = (if flt aov (Fin 50) then s @ [Bundles] else s);
          s = (if length topC > 0 then s @ [Loyalty topC] else s);
          s = (if length topP > 0 then s @ [DoubleDown topP] else s);
          s = foldl anomaly_step s anoms;
          s = (if flt (Fin 0) total_rev \<and> flt (Fin 0) aov \<and> overdueCount = 0 \<and> length anoms = 0
               then s @ [Steady] else s)
      in s)"

text \<open>\<^verbatim>\<open>m[k] += v\<close> on a \<^verbatim>\<open>map[string]float64\<close>: a missing key reads as 0.\<close>

definition addTo :: "(string \<times> f64) list \<Rightarrow> string \<Rightarrow> f64 \<Rightarrow> (string \<times> f64) list" where
  "addTo m k v = AList.update k (fadd (case map_of m k of None \<Rightarrow> Fin 0 | Some x \<Rightarrow> x) v) m"

definition topN :: "Lib \<Rightarrow> MapOrder \<Rightarrow> string \<Rightarrow> (string \<times> f64) list \<Rightarrow> nat \<Rightarrow> KVf list" where
  "topN lib ord name m n =
     (let arr = map (\<lambda>(k, v). \<lparr>Key = k, Value = v\<rparr>) (rangeTotals ord name m);
          arr = sortTop lib arr
      in if length arr > n then take n arr else arr)"

definition addWeek ::
  "(string \<times> (int \<times> int) list) list \<Rightarrow> string \<Rightarrow> int \<times> int \<Rightarrow> (string \<times> (int \<times> int) list) list" where
  "addWeek m c w =
     AList.update c (List.insert w (case map_of m c of None \<Rightarrow> [] | Some ws \<Rightarrow> ws)) m"

definition retentionRate :: "Lib \<Rightarrow> Sale list \<Rightarrow> f64" where
  "retentionRate lib sales =
     (let m = foldl (\<lambda>m s. addWeek m (Customer s) (ISOWeek lib (Date s))) [] sales;
          retained = length (filter (\<lambda>(c, ws). length ws \<ge> 2) m)
      in if length m = 0 then Fin 0 else fdiv (of_nat64 retained) (of_nat64 (length m)))"

definition isOverdue :: "Sale \<Rightarrow> bool" where
  "isOverdue s =
     (Contains (Status s) ''overdue'' \<or> Contains (Status s) ''unpaid'' \<or> Contains (Status s) ''due'')"

text \<open>
  The local variables of \<^verbatim>\<open>computeKPIs\<close> that its main loop updates
  (\<open>total_rev\<close> is the variable \<^verbatim>\<open>total\<close>).
\<close>

record Acc =
  total_rev :: f64
  orders :: nat
  byCustomer :: "(string \<times> f64) list"
  byProduct :: "(string \<times> f64) list"
  customers :: "(string \<times> bool) list"
  dr :: "(string \<times> f64) list"
  overdueCount :: nat
  overdueTotal :: f64

definition acc0 :: Acc where
  "acc0 = \<lparr>total_rev = Fin 0, orders = 0, byCustomer = [], byProduct = [], customers = [],
           dr = [], overdueCount = 0, overdueTotal = Fin 0\<rparr>"

definition kpi_step :: "Lib \<Rightarrow> Acc \<Rightarrow> Sale \<Rightarrow> Acc" where
  "kpi_step lib a s =
     (let key = Format lib ''2006-01-02'' (Date s)
      in \<lparr>total_rev = fadd (total_rev a) (Amount s),
          orders = orders a + 1,
          byCustomer = addTo (byCustomer a) (Customer s) (Amount s),
          byProduct = addTo (byProduct a) (Product s) (Amount s),
          customers = AList.update (Customer s) True (customers a),
          dr = addTo (dr a) key (Amount s),
          overdueCount = (if isOverdue s then overdueCount a + 1 else overdueCount a),
          overdueTotal = (if isOverdue s then fadd (overdueTotal a) (Amount s) else overdueTotal a)\<rparr>)"

definition KPIs_zero :: KPIs where
  "KPIs_zero =
     \<lparr>From = zeroTime, To = zeroTime, TotalRevenue = Fin 0, AvgOrderValue = Fin 0, Orders = 0,
      UniqueCustomers = 0, TopCustomers = [], TopProducts = [], DailyRevenue = [],
      RetentionRate = Fin 0, ForecastNext7DaysTotal = Fin 0, Anomalies = [], OverdueCount = 0,
      OverdueTotal = Fin 0, Suggestions = [], ExecSummary = []\<rparr>"

definition toDaily :: "Lib \<Rightarrow> string \<times> f64 \<Rightarrow> KVt" where
  "toDaily lib kv =
     \<lparr>KVt.Day = (case Parse lib ''2006-01-02'' (fst kv) of None \<Rightarrow> zeroTime | Some t \<Rightarrow> t),
      Value = snd kv\<rparr>"

text \<open>
  \<^verbatim>\<open>sort.Slice\<close> sorts in place, so the sorted slice has the length of the input and
  \<^verbatim>\<open>sales[0]\<close>, \<^verbatim>\<open>sales[len(sales)-1]\<close> exist whenever the input is not empty.
\<close>

definition computeKPIs :: "Lib \<Rightarrow> MapOrder \<Rightarrow> Sale list \<Rightarrow> KPIs" where
  "computeKPIs lib ord sales0 =
     (if length sales0 = 0 then KPIs_zero
      else
        let sales = sortSales lib sales0;
            a = foldl (kpi_step lib) acc0 sales;
            daily = sortDaily lib (map (toDaily lib) (rangeTotals ord ''dr'' (dr a)));
            topCust = topN lib ord ''byCustomer'' (byCustomer a) 5;
            topProd = topN lib ord ''byProduct'' (byProduct a) 5;
            avgOrder = (if orders a > 0 then fdiv (total_rev a) (of_nat64 (orders a)) else Fin 0);
            retention = retentionRate lib sales;
            anoms = detectAnomalies daily;
            forecast = forecast7 daily;
            sug = suggestions (total_rev a) avgOrder (overdueCount a) (overdueTotal a) topCust topProd anoms
        in \<lparr>From = Date (hd sales), To = Date (last sales),
            TotalRevenue = total_rev a,
            AvgOrderValue = avgOrder,
            Orders = orders a,
            UniqueCustomers = length (customers a),
            TopCustomers = topCust,
            TopProducts = topProd,
            DailyRevenue = daily,
            RetentionRate = retention,
            ForecastNext7DaysTotal = forecast,
            Anomalies = anoms,
            OverdueCount = overdueCount a,
            OverdueTotal = overdueTotal a,
            Suggestions = sug,
            ExecSummary = []\<rparr>)"

subsection \<open>The statistics of the claims\<close>

text \<open>
  Exact population statistics of a list of reals, as the specification words them: mean,
  standard deviation, z-score.
\<close>

definition pop_mean :: "real list \<Rightarrow> real" where
  "pop_mean vs = sum_list vs / real (length vs)"

definition pop_stddev :: "real list \<Rightarrow> real" where
  "pop_stddev vs = sqrt (sum_list (map (\<lambda>v. (v - pop_mean vs)\<^sup>2) vs) / real (length vs))"

definition zscore :: "real list \<Rightarrow> real \<Rightarrow> real" where
  "zscore vs v = (v - pop_mean vs) / pop_stddev vs"

text \<open>
  The same statistics in binary64: the sum taken from left to right starting at 0, the
  mean, the standard deviation (square root of the mean of the rounded squared
  deviations), and the z-score of a value.
\<close>

definition fsum :: "f64 list \<Rightarrow> f64" where
  "fsum vs = foldl fadd (Fin 0) vs"

definition fmean :: "f64 list \<Rightarrow> f64" where
  "fmean vs = fdiv (fsum vs) (of_nat64 (length vs))"

definition fstd :: "f64 list \<Rightarrow> f64" where
  "fstd vs =
     fsqrt (fdiv (fsum (map (\<lambda>v. fmul (fsub v (fmean vs)) (fsub v (fmean vs))) vs))
                 (of_nat64 (length vs)))"

definition fz :: "f64 list \<Rightarrow> f64 \<Rightarrow> f64" where
  "fz vs v = fdiv (fsub v (fmean vs)) (fstd vs)"

text \<open>The anomaly reported for a day \<open>x\<close> of the series \<open>d\<close>: the day, its total, its z-score.\<close>

definition anomalyOf :: "KVt list \<Rightarrow> KVt \<Rightarrow> Anomaly" where
  "anomalyOf d x =
     \<lparr>Anomaly.Day = KVt.Day x, Value = KVt.Value x, Z = fz (map KVt.Value d) (KVt.Value x)\<rparr>"

text \<open>
  Amounts that are whole numbers of absolute sum at most \<open>2 ^ 53\<close>: every partial sum
  of such amounts, in any order and grouping, is a binary64 value.
\<close>

definition small_whole :: "f64 list \<Rightarrow> bool" where
  "small_whole vs = (list_all whole vs \<and> sum_list (map (\<lambda>v. \<bar>val v\<bar>) vs) \<le> 2 ^ 53)"

subsection \<open>Example series\<close>

text \<open>A daily series with the given totals on consecutive days of July 2025, from day \<open>n\<close>.\<close>

fun julySeries :: "int \<Rightarrow> f64 list \<Rightarrow> KVt list" where
  "julySeries n [] = []"
| "julySeries n (v # vs) = \<lparr>KVt.Day = DateUTC 2025 7 n, Value = v\<rparr> # julySeries (n + 1) vs"

definition shortSeries :: "KVt list" where
  "shortSeries = julySeries 1 (map Fin [0, 0, 0, 0, 10])"

definition flatSeries :: "KVt list" where
  "flatSeries = julySeries 1 (map Fin [5, 5, 5, 5, 5, 5, 5])"

definition spikeSeries :: "KVt list" where
  "spikeSeries = julySeries 1 (map Fin [10, 10, 10, 10, 10, 10, 10, 10, 10, 110])"

definition boundarySeries :: "KVt list" where
  "boundarySeries = julySeries 1 (map Fin [0, 0, 0, 0, 0, 0, 0, 0, 10, 10])"

definition nineSeries :: "KVt list" where
  "nineSeries = julySeries 1 (map Fin [0, 0, 0, 0, 0, 0, 0, 0, 9, 9])"

definition rampSeries :: "KVt list" where
  "rampSeries = julySeries 1 (map Fin [10, 20, 30, 40, 50, 60, 70, 80, 90])"

definition boundaryDay :: KVt where
  "boundaryDay = \<lparr>KVt.Day = DateUTC 2025 7 9, Value = Fin 10\<rparr>"

definition shortDay :: KVt where
  "shortDay = \<lparr>KVt.Day = DateUTC 2025 7 5, Value = Fin 10\<rparr>"


subsection \<open>The claims' own wording of overdue detection and of stability\<close>

text \<open>Overdue detection on the lower-cased status, as claim C4 words it.\<close>

definition lowerOverdue :: "Lib \<Rightarrow> Sale \<Rightarrow> bool" where
  "lowerOverdue lib s =
     (Contains (ToLower lib (Status s)) ''overdue'' \<or> Contains (ToLower lib (Status s)) ''unpaid''
      \<or> Contains (ToLower lib (Status s)) ''due'')"

text \<open>
  Stability of a sort by date: for every date, the records of that date come out in the
  order in which they went in.
\<close>

definition stable_on :: "(Sale list \<Rightarrow> Sale list) \<Rightarrow> Sale list \<Rightarrow> bool" where
  "stable_on srt xs = (\<forall>t. filter (\<lambda>s. Date s = t) (srt xs) = filter (\<lambda>s. Date s = t) xs)"

subsection \<open>The claims' own wording of ingestion and of date parsing\<close>

text \<open>
  The first layout of a list that parses wins; the zero time if none does. The seven
  layouts of the program, in its order, and the six of claim C6: ISO date, day/month
  slash, month/day slash, dot-separated, full timestamp, year-month only.
\<close>

definition firstParsed :: "Lib \<Rightarrow> string list \<Rightarrow> string \<Rightarrow> Time" where
  "firstParsed lib fs s =
     (case List.map_filter (\<lambda>f. Parse lib f s) fs of [] \<Rightarrow> zeroTime | t # ts \<Rightarrow> t)"

definition layouts :: "string list" where
  "layouts =
     [''2006-01-02'', ''02/01/2006'', ''01/02/2006'', ''2006/01/02'', ''2006.01.02'',
      ''2006-01-02T15:04:05Z07:00'', ''2006-01'']"

definition claimed_layouts :: "string list" where
  "claimed_layouts =
     [''2006-01-02'', ''02/01/2006'', ''01/02/2006'', ''2006.01.02'',
      ''2006-01-02T15:04:05Z07:00'', ''2006-01'']"

text \<open>
  The date cell of data row number \<open>i\<close>. It is missing when the lookup yields the empty
  string, and unparsable when none of the seven layouts accepts it once trimmed. The
  specification keeps the rows whose date is neither; the program keeps the rows whose
  date moreover does not parse to the zero time. The record made of a kept row is \<open>rowSale\<close>.
\<close>

definition dateCell :: "MapOrder \<Rightarrow> (string \<times> nat) list \<Rightarrow> nat \<times> string list \<Rightarrow> string" where
  "dateCell ord h ir = get ord h (fst ir) (snd ir) ''date''"

definition unparsable :: "Lib \<Rightarrow> string \<Rightarrow> bool" where
  "unparsable lib ds = list_all (\<lambda>f. Parse lib f (TrimSpace ds) = None) layouts"

definition claimedRow :: "Lib \<Rightarrow> MapOrder \<Rightarrow> (string \<times> nat) list \<Rightarrow> nat \<times> string list \<Rightarrow> bool" where
  "claimedRow lib ord h ir = (dateCell ord h ir \<noteq> [] \<and> \<not> unparsable lib (dateCell ord h ir))"

definition keepRow :: "Lib \<Rightarrow> MapOrder \<Rightarrow> (string \<times> nat) list \<Rightarrow> nat \<times> string list \<Rightarrow> bool" where
  "keepRow lib ord h ir =
     (claimedRow lib ord h ir \<and>
      firstParsed lib layouts (TrimSpace (dateCell ord h ir)) \<noteq> zeroTime)"

definition rowSale :: "Lib \<Rightarrow> MapOrder \<Rightarrow> (string \<times> nat) list \<Rightarrow> nat \<times> string list \<Rightarrow> Sale" where
  "rowSale lib ord h ir =
     mkSale lib ord h (fst ir) (snd ir) (firstParsed lib layouts (TrimSpace (dateCell ord h ir)))"

text \<open>
  The five logical fields, and a header map in which each of them is contained in at
  most one key.
\<close>

definition tokens :: "string list" where
  "tokens = [''date'', ''amount'', ''customer'', ''product'', ''status'']"

definition unambiguous :: "(string \<times> nat) list \<Rightarrow> bool" where
  "unambiguous h =
     list_all (\<lambda>tok. length (filter (\<lambda>k. Contains k tok) (map fst h)) \<le> 1) tokens"

subsection \<open>The example of the specification and a library for it\<close>

text \<open>The six records of the end-to-end example.\<close>

definition exampleSales :: "Sale list" where
  "exampleSales =
     [\<lparr>Date = DateUTC 2025 7 1, Customer = ''Acme'', Product = ''WidgetA'', Amount = Fin 199, Status = ''paid''\<rparr>,
      \<lparr>Date = DateUTC 2025 7 1, Customer = ''Acme'', Product = ''WidgetB'', Amount = Fin 89, Status = ''paid''\<rparr>,
      \<lparr>Date = DateUTC 2025 7 2, Customer = ''Zen'', Product = ''WidgetA'', Amount = Fin 199, Status = ''unpaid''\<rparr>,
      \<lparr>Date = DateUTC 2025 7 3, Customer = ''Atlas'', Product = ''WidgetC'', Amount = Fin 349, Status = ''paid''\<rparr>,
      \<lparr>Date = DateUTC 2025 7 4, Customer = ''Zen'', Product = ''WidgetA'', Amount = Fin 199, Status = ''overdue''\<rparr>,
      \<lparr>Date = DateUTC 2025 7 5, Customer = ''Acme'', Product = ''WidgetA'', Amount = Fin 199, Status = ''paid''\<rparr>]"


text \<open>A CSV text with a header and three data rows; the second row has no parsable date.\<close>

definition exampleCsv :: string where
  "exampleCsv =
     ''date,customer,product,amount,status'' @ [CHR 0x0A] @
     ''2025-07-01,Acme,WidgetA,199,paid'' @ [CHR 0x0A] @
     ''soon,Zen,WidgetA,199,unpaid'' @ [CHR 0x0A] @
     ''2025-07-04,Zen,WidgetA,199,Overdue'' @ [CHR 0x0A]"

definition exampleRecords :: "string list list" where
  "exampleRecords =
     [[''date'', ''customer'', ''product'', ''amount'', ''status''],
      [''2025-07-01'', ''Acme'', ''WidgetA'', ''199'', ''paid''],
      [''soon'', ''Zen'', ''WidgetA'', ''199'', ''unpaid''],
      [''2025-07-04'', ''Zen'', ''WidgetA'', ''199'', ''Overdue'']]"

text \<open>A CSV text whose first data row is dated January 1 of year 1.\<close>

definition yearOneCsv :: string where
  "yearOneCsv =
     ''date,customer,product,amount,status'' @ [CHR 0x0A] @
     ''0001-01-01,Acme,WidgetA,199,paid'' @ [CHR 0x0A] @
     ''2025-07-04,Zen,WidgetA,199,paid'' @ [CHR 0x0A]"

definition yearOneRecords :: "string list list" where
  "yearOneRecords =
     [[''date'', ''customer'', ''product'', ''amount'', ''status''],
      [''0001-01-01'', ''Acme'', ''WidgetA'', ''199'', ''paid''],
      [''2025-07-04'', ''Zen'', ''WidgetA'', ''199'', ''paid'']]"

definition headerOnlyCsv :: string where
  "headerOnlyCsv = ''date,amount'' @ [CHR 0x0A]"

text \<open>A double quote inside an unquoted field.\<close>

definition brokenCsv :: string where
  "brokenCsv = ''date,amo'' @ [CHR 0x22] @ ''unt'' @ [CHR 0x0A]"

text \<open>
  \<open>demoLib\<close> is a finite excerpt of the standard library: it answers as Go does on the
  inputs listed in its tables, which are the inputs of the examples in this theory, and
  is arbitrary elsewhere. Its sorts are insertion sorts. Its \<open>ToLower\<close> maps the
  letters A to Z, which is \<^verbatim>\<open>strings.ToLower\<close> on ASCII strings.
\<close>

definition csvTable :: "(string \<times> string list list \<times> csv_error option) list" where
  "csvTable =
     [(exampleCsv, (exampleRecords, None)),
      (yearOneCsv, (yearOneRecords, None)),
      (headerOnlyCsv, ([[''date'', ''amount'']], None)),
      (brokenCsv, ([], Some ErrBareQuote))]"

definition julyDays :: "(Time \<times> string) list" where
  "julyDays =
     [(DateUTC 2025 7 1, ''2025-07-01''), (DateUTC 2025 7 2, ''2025-07-02''),
      (DateUTC 2025 7 3, ''2025-07-03''), (DateUTC 2025 7 4, ''2025-07-04''),
      (DateUTC 2025 7 5, ''2025-07-05'')]"

definition parseTable :: "((string \<times> string) \<times> Time) list" where
  "parseTable =
     map (\<lambda>(t, s). ((''2006-01-02'', s), t)) julyDays @
     [((''2006-01-02'', ''0001-01-01''), DateUTC 1 1 1),
      ((''02/01/2006'', ''01/02/2006''), DateUTC 2006 2 1),
      ((''01/02/2006'', ''01/02/2006''), DateUTC 2006 1 2),
      ((''2006/01/02'', ''2025/07/01''), DateUTC 2025 7 1)]"

definition floatTable :: "(string \<times> f64) list" where
  "floatTable = [(''199'', Fin 199), (''89'', Fin 89), (''349'', Fin 349)]"

definition toLowerChar :: "char \<Rightarrow> char" where
  "toLowerChar c =
     (case map_of (zip ''ABCDEFGHIJKLMNOPQRSTUVWXYZ'' ''abcdefghijklmnopqrstuvwxyz'') c of
        None \<Rightarrow> c | Some l \<Rightarrow> l)"

definition asciiLower :: "string \<Rightarrow> string" where
  "asciiLower s = map toLowerChar s"

definition demoLib :: Lib where
  "demoLib =
     \<lparr>ReadAll = (\<lambda>r. case map_of csvTable r of None \<Rightarrow> ([], Some ErrRead) | Some res \<Rightarrow> res),
      Parse = (\<lambda>layout s. map_of parseTable (layout, s)),
      ParseFloat = (\<lambda>s. case map_of floatTable s of None \<Rightarrow> Fin 0 | Some v \<Rightarrow> v),
      Format = (\<lambda>layout t. case map_of julyDays t of None \<Rightarrow> [] | Some s \<Rightarrow> s),
      ISOWeek = (\<lambda>t. (2025, 27)),
      ToLower = asciiLower,
      sortSales = sort_key (\<lambda>s. instant (Date s)),
      sortDaily = sort_key (\<lambda>x. instant (KVt.Day x)),
      sortTop = (\<lambda>xs. rev (sort_key (\<lambda>x. val (KVf.Value x)) xs))\<rparr>"

text \<open>Two map orders: entries as inserted, and reversed.\<close>

definition insertionOrder :: MapOrder where
  "insertionOrder = \<lparr>rangeHeader = (\<lambda>i key h. h), rangeTotals = (\<lambda>name m. m)\<rparr>"

definition reverseOrder :: MapOrder where
  "reverseOrder = \<lparr>rangeHeader = (\<lambda>i key h. rev h), rangeTotals = (\<lambda>name m. rev m)\<rparr>"

text \<open>
  A sort within the contract of \<^verbatim>\<open>sort.Slice\<close> that is not stable. Up to 12 records
  it sorts by insertion. Beyond, it takes the record at index \<open>2 * (n div 4)\<close> as the
  pivot and places it between the records dated before it and all the others.
  Pattern-defeating quicksort, which \<^verbatim>\<open>sort.Slice\<close> runs since Go 1.19, treats the
  thirteen records below in the same way: the three records it samples are tied, so the
  record at index 6 is the pivot and is swapped to the front.
\<close>

definition dateKey :: "Sale \<Rightarrow> int" where
  "dateKey s = instant (Date s)"

definition pivotSort :: "Sale list \<Rightarrow> Sale list" where
  "pivotSort xs =
     (if length xs \<le> 12 then sort_key dateKey xs
      else
        let p = 2 * (length xs div 4);
            pivot = xs ! p;
            rest = sort_key dateKey (take p xs @ drop (Suc p) xs)
        in filter (\<lambda>s. dateKey s < dateKey pivot) rest @ [pivot]
           @ filter (\<lambda>s. \<not> dateKey s < dateKey pivot) rest)"

definition pivotLib :: Lib where
  "pivotLib = demoLib\<lparr>sortSales := pivotSort\<rparr>"

text \<open>
  Thirteen records: the first of July 2, then twelve of July 1; the customer of each is
  its index in the input.
\<close>

definition dayRec :: "int \<Rightarrow> string \<Rightarrow> Sale" where
  "dayRec d c =
     \<lparr>Date = DateUTC 2025 7 d, Customer = c, Product = ''WidgetA'', Amount = Fin 199, Status = ''paid''\<rparr>"

definition thirteenSales :: "Sale list" where
  "thirteenSales =
     dayRec 2 ''r0'' #
     map (dayRec 1)
       [''r1'', ''r2'', ''r3'', ''r4'', ''r5'', ''r6'', ''r7'', ''r8'', ''r9'', ''r10'', ''r11'', ''r12'']"

section \<open>Verification\<close>

subsection \<open>Rounding to binary64\<close>

text \<open>
  A real whose multiple by a power of two lies between \<open>2 ^ 52\<close> and \<open>2 ^ 53\<close> rounds
  to the nearest integer multiple of the inverse power; whole numbers up to \<open>2 ^ 53\<close>
  in magnitude are binary64 values.
\<close>

lemma round_even_int: "round_even (of_int n) = n"
  by (simp add: round_even_def)

lemma round_even_near:
  assumes "\<bar>r - of_int m\<bar> < 1 / 2"
  shows "round_even r = m"
proof (cases "of_int m \<le> r")
  case True
  with assms have "\<lfloor>r\<rfloor> = m" by (intro floor_unique) auto
  with assms True show ?thesis by (simp add: round_even_def)
next
  case False
  with assms have f: "\<lfloor>r\<rfloor> = m - 1" by (intro floor_unique) auto
  from assms False have "1 / 2 < r - of_int (m - 1)" by simp
  with f show ?thesis by (simp add: round_even_def)
qed

lemma round_even_tie_above:
  assumes "r = of_int m + 1 / 2" and "even m"
  shows "round_even r = m"
proof -
  from assms(1) have "\<lfloor>r\<rfloor> = m" by (intro floor_unique) auto
  with assms show ?thesis by (simp add: round_even_def)
qed

lemma round_even_tie_below:
  assumes "r = of_int m - 1 / 2" and "even m"
  shows "round_even r = m"
proof -
  from assms(1) have f: "\<lfloor>r\<rfloor> = m - 1" by (intro floor_unique) auto
  from assms(1) have "r - of_int (m - 1) = 1 / 2" by simp
  with f assms(2) show ?thesis by (simp add: round_even_def)
qed

lemma ulp_exp_eq:
  assumes "2 powr (of_int e + 52) \<le> \<bar>x\<bar>" and "\<bar>x\<bar> < 2 powr (of_int e + 53)" and "- 1074 \<le> e"
  shows "ulp_exp x = e"
proof -
  have "(0::real) < 2 powr (of_int e + 52)" by simp
  with assms(1) have pos: "0 < \<bar>x\<bar>" by linarith
  have "\<lfloor>log 2 \<bar>x\<bar>\<rfloor> = e + 52"
    using assms(1,2) floor_log_eq_powr_iff [OF pos, of 2 "e + 52"] by (simp add: add.commute add.left_commute)
  with assms(3) show ?thesis by (simp add: ulp_exp_def)
qed

lemma rnd_eq:
  assumes "x \<noteq> 0" and "ulp_exp x = e" and "round_even (x / 2 powr of_int e) = m"
    and "\<bar>of_int m * 2 powr of_int e\<bar> < (2::real) ^ 1024"
  shows "rnd x = Fin (of_int m * 2 powr of_int e)"
  using assms by (simp add: rnd_def Let_def)

lemma rnd_scaled:
  fixes k :: nat
  assumes "2 ^ 52 \<le> \<bar>x\<bar> * 2 ^ k" and "\<bar>x\<bar> * 2 ^ k < 2 ^ 53" and "k \<le> 1074"
    and "round_even (x * 2 ^ k) = m" and "\<bar>m\<bar> \<le> 2 ^ 53"
  shows "rnd x = Fin (of_int m / 2 ^ k)"
proof -
  have p: "(2::real) powr of_int (- int k) = 1 / 2 ^ k"
    by (simp add: powr_minus powr_realpow divide_simps)
  have q: "(2::real) powr (of_int (- int k) + a) = 2 powr a / 2 ^ k" for a :: real
  proof -
    have "(2::real) powr (of_int (- int k) + a) = 2 powr of_int (- int k) * 2 powr a"
      by (rule powr_add)
    then show ?thesis unfolding p by simp
  qed
  have n52: "(2::real) powr 52 = 2 ^ 52" and n53: "(2::real) powr 53 = 2 ^ 53"
    using powr_realpow [of 2 52] powr_realpow [of 2 53] by simp_all
  have x0: "x \<noteq> 0" using assms(1) by auto
  have lo: "2 powr (of_int (- int k) + 52) \<le> \<bar>x\<bar>"
    unfolding q n52 using assms(1) by (simp add: divide_simps)
  have hi: "\<bar>x\<bar> < 2 powr (of_int (- int k) + 53)"
    unfolding q n53 using assms(2) by (simp add: divide_simps)
  have e: "ulp_exp x = - int k"
    using lo hi assms(3) by (intro ulp_exp_eq) simp_all
  have r: "round_even (x / 2 powr of_int (- int k)) = m"
    unfolding p using assms(4) by simp
  have "real_of_int \<bar>m\<bar> \<le> real_of_int (2 ^ 53)" using assms(5) by (simp only: of_int_le_iff)
  then have mb: "\<bar>real_of_int m\<bar> \<le> 2 ^ 53" by simp
  have "\<bar>real_of_int m\<bar> / 2 ^ k \<le> \<bar>real_of_int m\<bar> / 1"
    by (intro divide_left_mono) simp_all
  with mb have "\<bar>real_of_int m\<bar> / 2 ^ k \<le> 2 ^ 53" by simp
  moreover have "(2::real) ^ 53 < 2 ^ 1024" by (intro power_strict_increasing) simp_all
  ultimately have b: "\<bar>of_int m * 2 powr of_int (- int k)\<bar> < (2::real) ^ 1024"
    unfolding p by (simp add: abs_mult)
  from rnd_eq [OF x0 e r b] show ?thesis unfolding p by simp
qed

lemma rnd_scaled_up:
  fixes j :: nat
  assumes "2 ^ 52 \<le> \<bar>x\<bar> / 2 ^ j" and "\<bar>x\<bar> / 2 ^ j < 2 ^ 53" and "j \<le> 970"
    and "round_even (x / 2 ^ j) = m" and "\<bar>m\<bar> \<le> 2 ^ 53"
  shows "rnd x = Fin (of_int m * 2 ^ j)"
proof -
  have p: "(2::real) powr of_int (int j) = 2 ^ j"
    by (simp add: powr_realpow)
  have q: "(2::real) powr (of_int (int j) + a) = 2 powr a * 2 ^ j" for a :: real
  proof -
    have "(2::real) powr (of_int (int j) + a) = 2 powr of_int (int j) * 2 powr a"
      by (rule powr_add)
    then show ?thesis unfolding p by simp
  qed
  have n52: "(2::real) powr 52 = 2 ^ 52" and n53: "(2::real) powr 53 = 2 ^ 53"
    using powr_realpow [of 2 52] powr_realpow [of 2 53] by simp_all
  have x0: "x \<noteq> 0" using assms(1) by auto
  have lo: "2 powr (of_int (int j) + 52) \<le> \<bar>x\<bar>"
    unfolding q n52 using assms(1) by (simp add: divide_simps)
  have hi: "\<bar>x\<bar> < 2 powr (of_int (int j) + 53)"
    unfolding q n53 using assms(2) by (simp add: divide_simps)
  have e: "ulp_exp x = int j"
    using lo hi by (intro ulp_exp_eq) simp_all
  have r: "round_even (x / 2 powr of_int (int j)) = m"
    unfolding p using assms(4) by simp
  have "real_of_int \<bar>m\<bar> \<le> real_of_int (2 ^ 53)" using assms(5) by (simp only: of_int_le_iff)
  then have m: "\<bar>real_of_int m\<bar> \<le> 2 ^ 53" by simp
  have "(2::real) ^ j \<le> 2 ^ 970" using assms(3) by (intro power_increasing) simp_all
  with m have "\<bar>real_of_int m\<bar> * 2 ^ j \<le> 2 ^ 53 * 2 ^ 970"
    by (intro mult_mono) simp_all
  moreover have "(2::real) ^ 53 * 2 ^ 970 < 2 ^ 1024"
  proof -
    have "(2::real) ^ 53 * 2 ^ 970 = 2 ^ 1023" by (simp only: power_add [symmetric]) simp
    moreover have "(2::real) ^ 1023 < 2 ^ 1024" by (intro power_strict_increasing) simp_all
    ultimately show ?thesis by simp
  qed
  ultimately have b: "\<bar>of_int m * 2 powr of_int (int j)\<bar> < (2::real) ^ 1024"
    unfolding p by (simp add: abs_mult)
  from rnd_eq [OF x0 e r b] show ?thesis unfolding p by simp
qed

lemma rnd_int:
  assumes "\<bar>n\<bar> \<le> 2 ^ 53"
  shows "rnd (of_int n) = Fin (of_int n)"
proof (cases "n = 0")
  case True
  then show ?thesis by (simp add: rnd_def)
next
  case False
  define x :: real where "x = of_int n"
  have x1: "1 \<le> \<bar>x\<bar>" using False by (simp add: x_def)
  have xb: "\<bar>x\<bar> \<le> 2 ^ 53"
  proof -
    have "real_of_int \<bar>n\<bar> \<le> real_of_int (2 ^ 53)" using assms by (simp only: of_int_le_iff)
    then show ?thesis by (simp add: x_def)
  qed
  define L where "L = \<lfloor>log 2 \<bar>x\<bar>\<rfloor>"
  have pos: "0 < \<bar>x\<bar>" using x1 by linarith
  have bnd: "2 powr of_int L \<le> \<bar>x\<bar> \<and> \<bar>x\<bar> < 2 powr (of_int L + 1)"
    using floor_log_eq_powr_iff [OF pos, of 2 L] by (simp add: L_def)
  have L0: "0 \<le> L" using x1 by (simp add: L_def)
  have L53: "L \<le> 53"
  proof -
    have "(2::real) powr 53 = 2 ^ 53" using powr_realpow [of 2 53] by simp
    with bnd xb have "(2::real) powr of_int L \<le> 2 powr 53" by linarith
    moreover have "(2::real) powr a \<le> 2 powr b \<Longrightarrow> a \<le> b" for a b :: real by simp
    ultimately have "real_of_int L \<le> 53" by blast
    then show ?thesis by linarith
  qed
  obtain l :: nat where l: "L = int l" using L0 by (metis nonneg_int_cases)
  have lo: "2 ^ l \<le> \<bar>x\<bar>" and hi: "\<bar>x\<bar> < 2 ^ (l + 1)"
    using bnd unfolding l by (simp_all add: powr_realpow powr_add)
  show ?thesis
  proof (cases "l \<le> 52")
    case True
    define k where "k = 52 - l"
    have kl: "l + k = 52" using True by (simp add: k_def)
    have a: "2 ^ 52 \<le> \<bar>x\<bar> * 2 ^ k"
    proof -
      have "(2::real) ^ 52 = 2 ^ l * 2 ^ k" by (simp only: power_add [symmetric] kl)
      also have "\<dots> \<le> \<bar>x\<bar> * 2 ^ k" using lo by simp
      finally show ?thesis .
    qed
    have b: "\<bar>x\<bar> * 2 ^ k < 2 ^ 53"
    proof -
      have "\<bar>x\<bar> * 2 ^ k < 2 ^ (l + 1) * 2 ^ k" using hi by simp
      also have "\<dots> = 2 ^ 53" using kl by (simp only: power_add [symmetric]) simp
      finally show ?thesis .
    qed
    have c: "round_even (x * 2 ^ k) = n * 2 ^ k"
    proof -
      have "x * 2 ^ k = of_int (n * 2 ^ k)" by (simp add: x_def)
      then show ?thesis by (simp only: round_even_int)
    qed
    have d: "\<bar>n * 2 ^ k\<bar> \<le> 2 ^ 53"
    proof -
      have "real_of_int \<bar>n * 2 ^ k\<bar> = \<bar>x\<bar> * 2 ^ k" by (simp add: x_def abs_mult)
      with b have "real_of_int \<bar>n * 2 ^ k\<bar> \<le> real_of_int (2 ^ 53)" by simp
      then show ?thesis by (simp only: of_int_le_iff)
    qed
    have "rnd x = Fin (of_int (n * 2 ^ k) / 2 ^ k)"
      using a b c d by (intro rnd_scaled) (simp_all add: k_def)
    then show ?thesis by (simp add: x_def)
  next
    case False
    with L53 l have l53: "l = 53" by simp
    with lo xb have e: "\<bar>x\<bar> = 2 ^ 53" by simp
    have a: "2 ^ 52 \<le> \<bar>x\<bar> / 2 ^ 1" "\<bar>x\<bar> / 2 ^ 1 < 2 ^ 53" unfolding e by simp_all
    have "x = 2 ^ 53 \<or> x = - (2 ^ 53)" using e by linarith
    then have n: "n = 2 ^ 53 \<or> n = - (2 ^ 53)"
      unfolding x_def by (metis of_int_eq_iff of_int_minus of_int_numeral of_int_power)
    then obtain m where m: "n = m * 2" "\<bar>m\<bar> \<le> 2 ^ 53" by auto
    have c: "round_even (x / 2 ^ 1) = m"
    proof -
      have "x / 2 ^ 1 = of_int m" by (simp add: x_def m(1))
      then show ?thesis by (simp only: round_even_int)
    qed
    have "rnd x = Fin (of_int m * 2 ^ 1)"
      using a c m(2) by (intro rnd_scaled_up) simp_all
    then show ?thesis by (simp add: x_def m(1))
  qed
qed

lemma rnd_scaled_near:
  fixes k :: nat
  assumes "2 ^ 52 \<le> \<bar>x\<bar> * 2 ^ k" and "\<bar>x\<bar> * 2 ^ k < 2 ^ 53" and "k \<le> 1074"
    and "\<bar>x * 2 ^ k - of_int m\<bar> < 1 / 2" and "\<bar>m\<bar> \<le> 2 ^ 53"
  shows "rnd x = dy m k"
  unfolding dy_def using assms(1,2,3) round_even_near [OF assms(4)] assms(5) by (rule rnd_scaled)

lemma rnd_scaled_tie_above:
  fixes k :: nat
  assumes "2 ^ 52 \<le> \<bar>x\<bar> * 2 ^ k" and "\<bar>x\<bar> * 2 ^ k < 2 ^ 53" and "k \<le> 1074"
    and "x * 2 ^ k = of_int m + 1 / 2" and "even m" and "\<bar>m\<bar> \<le> 2 ^ 53"
  shows "rnd x = dy m k"
  unfolding dy_def using assms(1,2,3) round_even_tie_above [OF assms(4,5)] assms(6) by (rule rnd_scaled)

lemma rnd_scaled_tie_below:
  fixes k :: nat
  assumes "2 ^ 52 \<le> \<bar>x\<bar> * 2 ^ k" and "\<bar>x\<bar> * 2 ^ k < 2 ^ 53" and "k \<le> 1074"
    and "x * 2 ^ k = of_int m - 1 / 2" and "even m" and "\<bar>m\<bar> \<le> 2 ^ 53"
  shows "rnd x = dy m k"
  unfolding dy_def using assms(1,2,3) round_even_tie_below [OF assms(4,5)] assms(6) by (rule rnd_scaled)

lemma rnd_sqrt_near:
  fixes k :: nat
  assumes "(of_int m - 1 / 2) * (of_int m - 1 / 2) < v * 4 ^ k"
    and "v * 4 ^ k < (of_int m + 1 / 2) * (of_int m + 1 / 2)"
    and "2 ^ 52 < m" and "m < 2 ^ 53" and "k \<le> 1074"
  shows "rnd (sqrt v) = dy m k"
proof -
  have mr: "(2::real) ^ 52 + 1 \<le> of_int m" "real_of_int m + 1 \<le> 2 ^ 53"
  proof -
    from assms(3) have "2 ^ 52 + 1 \<le> m" by simp
    then have "real_of_int (2 ^ 52 + 1) \<le> real_of_int m" by (simp only: of_int_le_iff)
    then show "(2::real) ^ 52 + 1 \<le> of_int m" by simp
    from assms(4) have "m + 1 \<le> 2 ^ 53" by simp
    then have "real_of_int (m + 1) \<le> real_of_int (2 ^ 53)" by (simp only: of_int_le_iff)
    then show "real_of_int m + 1 \<le> 2 ^ 53" by simp
  qed
  have "(0::real) < 2 ^ 52" by simp
  with mr(1) have pos: "0 < real_of_int m - 1 / 2" by linarith
  have s: "sqrt v * 2 ^ k = sqrt (v * 4 ^ k)"
  proof -
    have "(4::real) ^ k = (2\<^sup>2) ^ k" by simp
    also have "\<dots> = 2 ^ (2 * k)" by (rule power_mult [symmetric])
    also have "\<dots> = (2 ^ k)\<^sup>2" by (subst mult.commute) (rule power_mult)
    finally show ?thesis by (simp add: real_sqrt_mult)
  qed
  have lo: "of_int m - 1 / 2 < sqrt (v * 4 ^ k)"
    using assms(1) pos by (intro real_less_rsqrt) (simp add: power2_eq_square)
  have hi: "sqrt (v * 4 ^ k) < of_int m + 1 / 2"
    using assms(2) pos by (intro real_less_lsqrt) (simp_all add: power2_eq_square)
  have x0: "0 \<le> sqrt v * 2 ^ k" unfolding s using lo pos by linarith
  then have ab: "\<bar>sqrt v\<bar> * 2 ^ k = sqrt v * 2 ^ k"
    by (metis abs_mult abs_of_nonneg abs_power2 abs_numeral power_abs)
  have p53: "(2::real) ^ 53 = 2 * 2 ^ 52" by simp
  show ?thesis
  proof (rule rnd_scaled_near)
    show "2 ^ 52 \<le> \<bar>sqrt v\<bar> * 2 ^ k" unfolding ab s using lo mr(1) by linarith
    show "\<bar>sqrt v\<bar> * 2 ^ k < 2 ^ 53" unfolding ab s using hi mr(2) by linarith
    show "k \<le> 1074" by (rule assms(5))
    show "\<bar>sqrt v * 2 ^ k - of_int m\<bar> < 1 / 2" unfolding s using lo hi by linarith
    show "\<bar>m\<bar> \<le> 2 ^ 53" using assms(3,4) by simp
  qed
qed

lemma fadd_rule: "rnd (x + y) = r \<Longrightarrow> fadd (Fin x) (Fin y) = r"
  by simp

lemma fsub_rule: "rnd (x - y) = r \<Longrightarrow> fsub (Fin x) (Fin y) = r"
  by (simp add: fsub_def)

lemma fmul_rule: "rnd (x * y) = r \<Longrightarrow> fmul (Fin x) (Fin y) = r"
  by simp

lemma fdiv_rule: "y \<noteq> 0 \<Longrightarrow> rnd (x / y) = r \<Longrightarrow> fdiv (Fin x) (Fin y) = r"
  by simp

lemma fsqrt_rule: "0 \<le> x \<Longrightarrow> rnd (sqrt x) = r \<Longrightarrow> fsqrt (Fin x) = r"
  by simp

lemma rnd_zero [simp]: "rnd 0 = Fin 0"
  by (simp add: rnd_def)

lemma rnd_one [simp]: "rnd 1 = Fin 1"
  using rnd_int [of 1] by simp

lemma rnd_numeral [simp]: "numeral w \<le> (2::int) ^ 53 \<Longrightarrow> rnd (numeral w) = Fin (numeral w)"
  using rnd_int [of "numeral w"] by simp

lemma rnd_neg_numeral [simp]:
  "numeral w \<le> (2::int) ^ 53 \<Longrightarrow> rnd (- numeral w) = Fin (- numeral w)"
  using rnd_int [of "- numeral w"] by simp

lemma fsqrt_square: "0 \<le> r \<Longrightarrow> x = r * r \<Longrightarrow> rnd r = y \<Longrightarrow> fsqrt (Fin x) = y"
  by simp



lemma flt_dy: "flt (Fin a) (dy m k) = (a < of_int m / 2 ^ k)" "flt (dy m k) (Fin a) = (of_int m / 2 ^ k < a)"
  by (simp_all add: dy_def)

lemma feq_dy: "feq (dy m k) (Fin a) = (of_int m / 2 ^ k = a)"
  by (simp add: dy_def)

lemma val_Fin [simp]: "val (Fin x) = x"
  by (simp add: val_def)

lemma val_dy: "val (dy m k) = of_int m / 2 ^ k"
  by (simp add: dy_def)

lemma whole_int [simp]: "whole (Fin (of_int n))"
  by (simp add: whole_def)

lemma whole_numeral [simp]: "whole (Fin (numeral w))" "whole (Fin 0)" "whole (Fin 1)"
  using whole_int [of "numeral w"] whole_int [of 0] whole_int [of 1] by simp_all

lemma wholeE:
  assumes "whole a"
  obtains n where "a = Fin (of_int n)"
proof -
  from assms have "a = Fin (of_int \<lfloor>val a\<rfloor>)"
    by (cases a) (auto simp add: whole_def)
  then show ?thesis by (rule that)
qed

lemma fadd_whole:
  assumes "whole a" and "whole b" and "\<bar>val a\<bar> + \<bar>val b\<bar> \<le> 2 ^ 53"
  shows "fadd a b = Fin (val a + val b)" and "whole (fadd a b)"
proof -
  from assms(1) obtain na where a: "a = Fin (of_int na)" by (rule wholeE)
  from assms(2) obtain nb where b: "b = Fin (of_int nb)" by (rule wholeE)
  have "\<bar>real_of_int (na + nb)\<bar> \<le> \<bar>real_of_int na\<bar> + \<bar>real_of_int nb\<bar>" by simp
  also have "\<dots> \<le> 2 ^ 53" using assms(3) by (simp add: a b)
  finally have "real_of_int \<bar>na + nb\<bar> \<le> real_of_int (2 ^ 53)" by simp
  then have "\<bar>na + nb\<bar> \<le> 2 ^ 53" by (simp only: of_int_le_iff)
  then have "rnd (of_int (na + nb)) = Fin (of_int (na + nb))" by (rule rnd_int)
  then have r: "fadd a b = Fin (of_int (na + nb))" by (simp add: a b)
  then show "fadd a b = Fin (val a + val b)" by (simp add: a b)
  from r show "whole (fadd a b)" by (simp only: whole_int)
qed

lemma foldl_fadd_exact:
  assumes "whole a" and "list_all whole vs"
    and "\<bar>val a\<bar> + sum_list (map (\<lambda>v. \<bar>val v\<bar>) vs) \<le> 2 ^ 53"
  shows "foldl fadd a vs = Fin (val a + sum_list (map val vs))"
  using assms
proof (induction vs arbitrary: a)
  case Nil
  from Nil(1) obtain n where "a = Fin (of_int n)" by (rule wholeE)
  then show ?case by simp
next
  case (Cons v vs)
  have nn: "0 \<le> sum_list (map (\<lambda>v. \<bar>val v\<bar>) vs)" by (rule sum_list_nonneg) auto
  have b: "\<bar>val a\<bar> + \<bar>val v\<bar> \<le> 2 ^ 53" using Cons.prems(3) nn by simp
  have w: "whole v" using Cons.prems(2) by simp
  note f = fadd_whole [OF Cons.prems(1) w b]
  have "\<bar>val (fadd a v)\<bar> \<le> \<bar>val a\<bar> + \<bar>val v\<bar>" unfolding f(1) by simp
  with Cons.prems(3) have "\<bar>val (fadd a v)\<bar> + sum_list (map (\<lambda>v. \<bar>val v\<bar>) vs) \<le> 2 ^ 53" by simp
  with Cons.IH [OF f(2)] Cons.prems(2)
  have "foldl fadd (fadd a v) vs = Fin (val (fadd a v) + sum_list (map val vs))" by simp
  then show ?case by (simp add: f(1) add.assoc)
qed

lemma fsum_exact:
  assumes "small_whole vs"
  shows "fsum vs = Fin (sum_list (map val vs))"
  using assms foldl_fadd_exact [of "Fin 0" vs] by (simp add: fsum_def small_whole_def)

subsection \<open>Binary64 evaluations\<close>

text \<open>
  The operations that the program performs on the example inputs of this theory, one
  lemma for each, with its correctly rounded result.
\<close>

lemma b64_1: "fadd (Fin 0) (Fin 0) = Fin 0"
  by (simp add: fsub_def dy_def)

lemma b64_2: "fadd (Fin 0) (Fin 9) = Fin 9"
  by (simp add: fsub_def dy_def)

lemma b64_3: "fadd (Fin 9) (Fin 9) = Fin 18"
  by (simp add: fsub_def dy_def)

lemma b64_4: "fdiv (Fin 18) (Fin 10) = dy 8106479329266893 52"
  unfolding dy_def by (rule fdiv_rule, simp, fold dy_def, rule rnd_scaled_near) simp_all

lemma b64_5: "fsub (Fin 0) (dy 8106479329266893 52) = dy (- 8106479329266893) 52"
  unfolding dy_def by (rule fsub_rule, fold dy_def, rule rnd_scaled_near) simp_all

lemma b64_6: "fmul (dy (- 8106479329266893) 52) (dy (- 8106479329266893) 52) = dy 7295831396340204 51"
  unfolding dy_def by (rule fmul_rule, fold dy_def, rule rnd_scaled_near) simp_all

lemma b64_7: "fadd (Fin 0) (dy 7295831396340204 51) = dy 7295831396340204 51"
  unfolding dy_def by (rule fadd_rule, fold dy_def, rule rnd_scaled_near) simp_all

lemma b64_8: "fadd (dy 7295831396340204 51) (dy 7295831396340204 51) = dy 7295831396340204 50"
  unfolding dy_def by (rule fadd_rule, fold dy_def, rule rnd_scaled_near) simp_all

lemma b64_9: "fadd (dy 7295831396340204 50) (dy 7295831396340204 51) = dy 5471873547255153 49"
  unfolding dy_def by (rule fadd_rule, fold dy_def, rule rnd_scaled_near) simp_all

lemma b64_10: "fadd (dy 5471873547255153 49) (dy 7295831396340204 51) = dy 7295831396340204 49"
  unfolding dy_def by (rule fadd_rule, fold dy_def, rule rnd_scaled_near) simp_all

lemma b64_11: "fadd (dy 7295831396340204 49) (dy 7295831396340204 51) = dy 4559894622712628 48"
  unfolding dy_def by (rule fadd_rule, fold dy_def, rule rnd_scaled_tie_below) simp_all

lemma b64_12: "fadd (dy 4559894622712628 48) (dy 7295831396340204 51) = dy 5471873547255154 48"
  unfolding dy_def by (rule fadd_rule, fold dy_def, rule rnd_scaled_tie_below) simp_all

lemma b64_13: "fadd (dy 5471873547255154 48) (dy 7295831396340204 51) = dy 6383852471797680 48"
  unfolding dy_def by (rule fadd_rule, fold dy_def, rule rnd_scaled_tie_below) simp_all

lemma b64_14: "fadd (dy 6383852471797680 48) (dy 7295831396340204 51) = dy 7295831396340206 48"
  unfolding dy_def by (rule fadd_rule, fold dy_def, rule rnd_scaled_tie_below) simp_all

lemma b64_15: "fsub (Fin 9) (dy 8106479329266893 52) = dy 8106479329266893 50"
  unfolding dy_def by (rule fsub_rule, fold dy_def, rule rnd_scaled_near) simp_all

lemma b64_16: "fmul (dy 8106479329266893 50) (dy 8106479329266893 50) = dy 7295831396340204 47"
  unfolding dy_def by (rule fmul_rule, fold dy_def, rule rnd_scaled_near) simp_all

lemma b64_17: "fadd (dy 7295831396340206 48) (dy 7295831396340204 47) = dy 5471873547255154 46"
  unfolding dy_def by (rule fadd_rule, fold dy_def, rule rnd_scaled_tie_below) simp_all

lemma b64_18: "fadd (dy 5471873547255154 46) (dy 7295831396340204 47) = dy 4559894622712628 45"
  unfolding dy_def by (rule fadd_rule, fold dy_def, rule rnd_scaled_near) simp_all

lemma b64_19: "fdiv (dy 4559894622712628 45) (Fin 10) = dy 7295831396340205 49"
  unfolding dy_def by (rule fdiv_rule, simp, fold dy_def, rule rnd_scaled_near) simp_all

lemma b64_20: "fsqrt (dy 7295831396340205 49) = dy 8106479329266894 51"
  unfolding dy_def by (rule fsqrt_rule, simp, fold dy_def, rule rnd_sqrt_near) simp_all

lemma b64_21: "fdiv (dy (- 8106479329266893) 52) (dy 8106479329266894 51) = dy (- 9007199254740991) 54"
  unfolding dy_def by (rule fdiv_rule, simp, fold dy_def, rule rnd_scaled_near) simp_all

lemma b64_22: "fdiv (dy 8106479329266893 50) (dy 8106479329266894 51) = dy 9007199254740991 52"
  unfolding dy_def by (rule fdiv_rule, simp, fold dy_def, rule rnd_scaled_near) simp_all

lemma b64_23: "fadd (Fin 0) (Fin 10) = Fin 10"
  by (simp add: fsub_def dy_def)

lemma b64_24: "fadd (Fin 10) (Fin 10) = Fin 20"
  by (simp add: fsub_def dy_def)

lemma b64_25: "fadd (Fin 20) (Fin 10) = Fin 30"
  by (simp add: fsub_def dy_def)

lemma b64_26: "fadd (Fin 30) (Fin 10) = Fin 40"
  by (simp add: fsub_def dy_def)

lemma b64_27: "fadd (Fin 40) (Fin 10) = Fin 50"
  by (simp add: fsub_def dy_def)

lemma b64_28: "fadd (Fin 50) (Fin 10) = Fin 60"
  by (simp add: fsub_def dy_def)

lemma b64_29: "fadd (Fin 60) (Fin 10) = Fin 70"
  by (simp add: fsub_def dy_def)

lemma b64_30: "fadd (Fin 70) (Fin 10) = Fin 80"
  by (simp add: fsub_def dy_def)

lemma b64_31: "fadd (Fin 80) (Fin 10) = Fin 90"
  by (simp add: fsub_def dy_def)

lemma b64_32: "fadd (Fin 90) (Fin 110) = Fin 200"
  by (simp add: fsub_def dy_def)

lemma b64_33: "fdiv (Fin 200) (Fin 10) = Fin 20"
  by (simp add: fsub_def dy_def)

lemma b64_34: "fsub (Fin 10) (Fin 20) = Fin (- 10)"
  by (simp add: fsub_def dy_def)

lemma b64_35: "fmul (Fin (- 10)) (Fin (- 10)) = Fin 100"
  by (simp add: fsub_def dy_def)

lemma b64_36: "fadd (Fin 0) (Fin 100) = Fin 100"
  by (simp add: fsub_def dy_def)

lemma b64_37: "fadd (Fin 100) (Fin 100) = Fin 200"
  by (simp add: fsub_def dy_def)

lemma b64_38: "fadd (Fin 200) (Fin 100) = Fin 300"
  by (simp add: fsub_def dy_def)

lemma b64_39: "fadd (Fin 300) (Fin 100) = Fin 400"
  by (simp add: fsub_def dy_def)

lemma b64_40: "fadd (Fin 400) (Fin 100) = Fin 500"
  by (simp add: fsub_def dy_def)

lemma b64_41: "fadd (Fin 500) (Fin 100) = Fin 600"
  by (simp add: fsub_def dy_def)

lemma b64_42: "fadd (Fin 600) (Fin 100) = Fin 700"
  by (simp add: fsub_def dy_def)

lemma b64_43: "fadd (Fin 700) (Fin 100) = Fin 800"
  by (simp add: fsub_def dy_def)

lemma b64_44: "fadd (Fin 800) (Fin 100) = Fin 900"
  by (simp add: fsub_def dy_def)

lemma b64_45: "fsub (Fin 110) (Fin 20) = Fin 90"
  by (simp add: fsub_def dy_def)

lemma b64_46: "fmul (Fin 90) (Fin 90) = Fin 8100"
  by (simp add: fsub_def dy_def)

lemma b64_47: "fadd (Fin 900) (Fin 8100) = Fin 9000"
  by (simp add: fsub_def dy_def)

lemma b64_48: "fdiv (Fin 9000) (Fin 10) = Fin 900"
  by (simp add: fsub_def dy_def)

lemma b64_49: "fsqrt (Fin 900) = Fin 30"
  unfolding dy_def by (rule fsqrt_square [where r = 30]) simp_all

lemma b64_50: "fdiv (Fin (- 10)) (Fin 30) = dy (- 6004799503160661) 54"
  unfolding dy_def by (rule fdiv_rule, simp, fold dy_def, rule rnd_scaled_near) simp_all

lemma b64_51: "fdiv (Fin 90) (Fin 30) = Fin 3"
  by (simp add: fsub_def dy_def)

lemma b64_52: "fdiv (Fin 20) (Fin 10) = Fin 2"
  by (simp add: fsub_def dy_def)

lemma b64_53: "fsub (Fin 0) (Fin 2) = Fin (- 2)"
  by (simp add: fsub_def dy_def)

lemma b64_54: "fmul (Fin (- 2)) (Fin (- 2)) = Fin 4"
  by (simp add: fsub_def dy_def)

lemma b64_55: "fadd (Fin 0) (Fin 4) = Fin 4"
  by (simp add: fsub_def dy_def)

lemma b64_56: "fadd (Fin 4) (Fin 4) = Fin 8"
  by (simp add: fsub_def dy_def)

lemma b64_57: "fadd (Fin 8) (Fin 4) = Fin 12"
  by (simp add: fsub_def dy_def)

lemma b64_58: "fadd (Fin 12) (Fin 4) = Fin 16"
  by (simp add: fsub_def dy_def)

lemma b64_59: "fadd (Fin 16) (Fin 4) = Fin 20"
  by (simp add: fsub_def dy_def)

lemma b64_60: "fadd (Fin 20) (Fin 4) = Fin 24"
  by (simp add: fsub_def dy_def)

lemma b64_61: "fadd (Fin 24) (Fin 4) = Fin 28"
  by (simp add: fsub_def dy_def)

lemma b64_62: "fadd (Fin 28) (Fin 4) = Fin 32"
  by (simp add: fsub_def dy_def)

lemma b64_63: "fsub (Fin 10) (Fin 2) = Fin 8"
  by (simp add: fsub_def dy_def)

lemma b64_64: "fmul (Fin 8) (Fin 8) = Fin 64"
  by (simp add: fsub_def dy_def)

lemma b64_65: "fadd (Fin 32) (Fin 64) = Fin 96"
  by (simp add: fsub_def dy_def)

lemma b64_66: "fadd (Fin 96) (Fin 64) = Fin 160"
  by (simp add: fsub_def dy_def)

lemma b64_67: "fdiv (Fin 160) (Fin 10) = Fin 16"
  by (simp add: fsub_def dy_def)

lemma b64_68: "fsqrt (Fin 16) = Fin 4"
  unfolding dy_def by (rule fsqrt_square [where r = 4]) simp_all

lemma b64_69: "fdiv (Fin (- 2)) (Fin 4) = dy (- 4503599627370496) 53"
  unfolding dy_def by (rule fdiv_rule, simp, fold dy_def, rule rnd_scaled_near) simp_all

lemma b64_70: "fdiv (Fin 8) (Fin 4) = Fin 2"
  by (simp add: fsub_def dy_def)

lemma b64_71: "fdiv (Fin 10) (Fin 5) = Fin 2"
  by (simp add: fsub_def dy_def)

lemma b64_72: "fadd (Fin 16) (Fin 64) = Fin 80"
  by (simp add: fsub_def dy_def)

lemma b64_73: "fdiv (Fin 80) (Fin 5) = Fin 16"
  by (simp add: fsub_def dy_def)

lemma b64_74: "fadd (Fin 0) (Fin 5) = Fin 5"
  by (simp add: fsub_def dy_def)

lemma b64_75: "fadd (Fin 5) (Fin 5) = Fin 10"
  by (simp add: fsub_def dy_def)

lemma b64_76: "fadd (Fin 10) (Fin 5) = Fin 15"
  by (simp add: fsub_def dy_def)

lemma b64_77: "fadd (Fin 15) (Fin 5) = Fin 20"
  by (simp add: fsub_def dy_def)

lemma b64_78: "fadd (Fin 20) (Fin 5) = Fin 25"
  by (simp add: fsub_def dy_def)

lemma b64_79: "fadd (Fin 25) (Fin 5) = Fin 30"
  by (simp add: fsub_def dy_def)

lemma b64_80: "fadd (Fin 30) (Fin 5) = Fin 35"
  by (simp add: fsub_def dy_def)

lemma b64_81: "fdiv (Fin 35) (Fin 7) = Fin 5"
  by (simp add: fsub_def dy_def)

lemma b64_82: "fsub (Fin 5) (Fin 5) = Fin 0"
  by (simp add: fsub_def dy_def)

lemma b64_83: "fmul (Fin 0) (Fin 0) = Fin 0"
  by (simp add: fsub_def dy_def)

lemma b64_84: "fdiv (Fin 0) (Fin 7) = Fin 0"
  by (simp add: fsub_def dy_def)

lemma b64_85: "fsqrt (Fin 0) = Fin 0"
  unfolding dy_def by (rule fsqrt_square [where r = 0]) simp_all

lemma b64_86: "fadd (Fin 0) (Fin 30) = Fin 30"
  by (simp add: fsub_def dy_def)

lemma b64_87: "fadd (Fin 30) (Fin 40) = Fin 70"
  by (simp add: fsub_def dy_def)

lemma b64_88: "fadd (Fin 70) (Fin 50) = Fin 120"
  by (simp add: fsub_def dy_def)

lemma b64_89: "fadd (Fin 120) (Fin 60) = Fin 180"
  by (simp add: fsub_def dy_def)

lemma b64_90: "fadd (Fin 180) (Fin 70) = Fin 250"
  by (simp add: fsub_def dy_def)

lemma b64_91: "fadd (Fin 250) (Fin 80) = Fin 330"
  by (simp add: fsub_def dy_def)

lemma b64_92: "fadd (Fin 330) (Fin 90) = Fin 420"
  by (simp add: fsub_def dy_def)

lemma b64_93: "fdiv (Fin 420) (Fin 7) = Fin 60"
  by (simp add: fsub_def dy_def)

lemma b64_94: "fmul (Fin 60) (Fin 7) = Fin 420"
  by (simp add: fsub_def dy_def)

lemma b64_95: "fdiv (Fin 1234) (Fin 6) = dy 7236252526269781 45"
  unfolding dy_def by (rule fdiv_rule, simp, fold dy_def, rule rnd_scaled_near) simp_all

lemma b64_96: "rnd (1 / 10) = dy 7205759403792794 56"
  by (rule rnd_scaled_near) simp_all

lemma b64_97: "rnd (1 / 5) = dy 7205759403792794 55"
  by (rule rnd_scaled_near) simp_all

lemma b64_98: "rnd (3 / 10) = dy 5404319552844595 54"
  by (rule rnd_scaled_near) simp_all

lemma b64_99: "fadd (Fin 0) (dy 7205759403792794 56) = dy 7205759403792794 56"
  unfolding dy_def by (rule fadd_rule, fold dy_def, rule rnd_scaled_near) simp_all

lemma b64_100: "fadd (dy 7205759403792794 56) (dy 7205759403792794 55) = dy 5404319552844596 54"
  unfolding dy_def by (rule fadd_rule, fold dy_def, rule rnd_scaled_tie_below) simp_all

lemma b64_101: "fadd (dy 5404319552844596 54) (dy 5404319552844595 54) = dy 5404319552844596 53"
  unfolding dy_def by (rule fadd_rule, fold dy_def, rule rnd_scaled_tie_below) simp_all

lemma b64_102: "fadd (Fin 0) (dy 7205759403792794 55) = dy 7205759403792794 55"
  unfolding dy_def by (rule fadd_rule, fold dy_def, rule rnd_scaled_near) simp_all

lemma b64_103: "fadd (dy 7205759403792794 55) (dy 5404319552844595 54) = dy 4503599627370496 53"
  unfolding dy_def by (rule fadd_rule, fold dy_def, rule rnd_scaled_near) simp_all

lemma b64_104: "fadd (dy 7205759403792794 56) (dy 4503599627370496 53) = dy 5404319552844595 53"
  unfolding dy_def by (rule fadd_rule, fold dy_def, rule rnd_scaled_near) simp_all

lemmas b64_steps =
  b64_1 b64_2 b64_3 b64_4 b64_5 b64_6 b64_7 b64_8 b64_9 b64_10 b64_11 b64_12 b64_13 b64_14
  b64_15 b64_16 b64_17 b64_18 b64_19 b64_20 b64_21 b64_22 b64_23 b64_24 b64_25 b64_26
  b64_27 b64_28 b64_29 b64_30 b64_31 b64_32 b64_33 b64_34 b64_35 b64_36 b64_37 b64_38
  b64_39 b64_40 b64_41 b64_42 b64_43 b64_44 b64_45 b64_46 b64_47 b64_48 b64_49 b64_50
  b64_51 b64_52 b64_53 b64_54 b64_55 b64_56 b64_57 b64_58 b64_59 b64_60 b64_61 b64_62
  b64_63 b64_64 b64_65 b64_66 b64_67 b64_68 b64_69 b64_70 b64_71 b64_72 b64_73 b64_74
  b64_75 b64_76 b64_77 b64_78 b64_79 b64_80 b64_81 b64_82 b64_83 b64_84 b64_85 b64_86
  b64_87 b64_88 b64_89 b64_90 b64_91 b64_92 b64_93 b64_94 b64_95 b64_96 b64_97 b64_98
  b64_99 b64_100 b64_101 b64_102 b64_103 b64_104

subsection \<open>Loops as folds and filters\<close>

lemma forecast7_loop_fold:
  "i \<le> length d \<Longrightarrow> forecast7_loop d i sm = foldl fadd sm (map KVt.Value (drop i d))"
proof (induction d i sm rule: forecast7_loop.induct)
  case (1 d i sm)
  show ?case
  proof (cases "i < length d")
    case True
    then have "drop i d = d ! i # drop (Suc i) d"
      by (simp add: Cons_nth_drop_Suc)
    with True "1.IH" show ?thesis
      by (subst forecast7_loop.simps) simp
  next
    case False
    with "1.prems" show ?thesis
      by (subst forecast7_loop.simps) simp
  qed
qed

lemma mean_eq:
  "fdiv (foldl (\<lambda>sm x. fadd sm (KVt.Value x)) (Fin 0) d) (of_nat64 (length d))
     = fmean (map KVt.Value d)"
  by (simp add: fmean_def fsum_def foldl_map)

lemma std_eq:
  "fsqrt (fdiv (foldl (\<lambda>ss x. fadd ss (fmul (fsub (KVt.Value x) (fmean (map KVt.Value d)))
                                           (fsub (KVt.Value x) (fmean (map KVt.Value d)))))
                  (Fin 0) d)
               (of_nat64 (length d))) = fstd (map KVt.Value d)"
  by (simp add: fstd_def fsum_def foldl_map)

lemma detect_loop:
  "foldl (\<lambda>out x.
          let z = fdiv (fsub (KVt.Value x) m) s
          in if fle (Fin 2) (fabs z)
             then out @ [\<lparr>Anomaly.Day = KVt.Day x, Value = KVt.Value x, Z = z\<rparr>]
             else out) acc d
      = acc @ map (\<lambda>x. \<lparr>Anomaly.Day = KVt.Day x, Value = KVt.Value x,
                         Z = fdiv (fsub (KVt.Value x) m) s\<rparr>)
          (filter (\<lambda>x. fle (Fin 2) (fabs (fdiv (fsub (KVt.Value x) m) s))) d)"
  by (induction d arbitrary: acc) (simp_all add: Let_def)

lemma detectAnomalies_unfold:
  "detectAnomalies d =
     (if length d < 7 then []
      else if feq (fstd (map KVt.Value d)) (Fin 0) then []
      else map (anomalyOf d)
             (filter (\<lambda>x. fle (Fin 2) (fabs (fz (map KVt.Value d) (KVt.Value x)))) d))"
proof -
  have "detectAnomalies d =
     (if length d < 7 then []
      else if feq (fstd (map KVt.Value d)) (Fin 0) then []
      else foldl (\<lambda>out x.
                  let z = fdiv (fsub (KVt.Value x) (fmean (map KVt.Value d))) (fstd (map KVt.Value d))
                  in if fle (Fin 2) (fabs z)
                     then out @ [\<lparr>Anomaly.Day = KVt.Day x, Value = KVt.Value x, Z = z\<rparr>]
                     else out) [] d)"
    unfolding detectAnomalies_def
    by (simp only: Let_def mean_eq std_eq)
  then show ?thesis
    unfolding anomalyOf_def [abs_def] fz_def [abs_def]
    by (simp only: detect_loop append_Nil)
qed



subsection \<open>Statistics of the example series\<close>

lemma series_lengths:
  "length shortSeries = 5" "length flatSeries = 7" "length spikeSeries = 10"
  "length boundarySeries = 10" "length nineSeries = 10" "length rampSeries = 9"
  by (simp_all add: shortSeries_def flatSeries_def spikeSeries_def boundarySeries_def
      nineSeries_def rampSeries_def)

lemma of_nat64_small:
  "of_nat64 5 = Fin 5" "of_nat64 6 = Fin 6" "of_nat64 7 = Fin 7" "of_nat64 10 = Fin 10"
  by (simp_all add: of_nat64_def)




lemma boundary_stats:
  "fmean (map KVt.Value boundarySeries) = Fin 2" "fstd (map KVt.Value boundarySeries) = Fin 4"
proof -
  show m: "fmean (map KVt.Value boundarySeries) = Fin 2"
    unfolding fmean_def length_map series_lengths of_nat64_small
    by (simp add: boundarySeries_def fsum_def b64_steps
        del: fadd.simps fmul.simps fdiv.simps fsqrt.simps)
  show "fstd (map KVt.Value boundarySeries) = Fin 4"
    unfolding fstd_def m length_map series_lengths of_nat64_small
    by (simp add: boundarySeries_def fsum_def b64_steps
        del: fadd.simps fmul.simps fdiv.simps fsqrt.simps)
qed

lemma short_stats:
  "fmean (map KVt.Value shortSeries) = Fin 2" "fstd (map KVt.Value shortSeries) = Fin 4"
proof -
  show m: "fmean (map KVt.Value shortSeries) = Fin 2"
    unfolding fmean_def length_map series_lengths of_nat64_small
    by (simp add: shortSeries_def fsum_def b64_steps
        del: fadd.simps fmul.simps fdiv.simps fsqrt.simps)
  show "fstd (map KVt.Value shortSeries) = Fin 4"
    unfolding fstd_def m length_map series_lengths of_nat64_small
    by (simp add: shortSeries_def fsum_def b64_steps
        del: fadd.simps fmul.simps fdiv.simps fsqrt.simps)
qed

lemma short_exact:
  "pop_mean (map (\<lambda>x. val (KVt.Value x)) shortSeries) = 2"
  "pop_stddev (map (\<lambda>x. val (KVt.Value x)) shortSeries) = 4"
proof -
  show m: "pop_mean (map (\<lambda>x. val (KVt.Value x)) shortSeries) = 2"
    by (simp add: shortSeries_def pop_mean_def)
  show "pop_stddev (map (\<lambda>x. val (KVt.Value x)) shortSeries) = 4"
    unfolding pop_stddev_def m
    by (rule real_sqrt_unique) (simp_all add: shortSeries_def)
qed




subsection \<open>Anomaly detector\<close>




subsection \<open>Forecaster\<close>

text \<open>
  Claim C5. For a daily series of N > 0 points the forecast is the sum of the last
  min(7, N) daily totals, divided by min(7, N), times 7; for the empty series it is 0.
  The sum runs from the oldest of these totals to the newest, and the sum, the quotient
  and the product are each rounded to binary64.
\<close>

theorem forecast7_moving_average:
  "forecast7 [] = Fin 0 \<and>
   (d \<noteq> [] \<longrightarrow>
      forecast7 d =
        fmul (fdiv (fsum (map KVt.Value (drop (length d - min 7 (length d)) d)))
                   (of_nat64 (min 7 (length d))))
             (Fin 7))"
proof -
  have "forecast7 [] = Fin 0" by (simp add: forecast7_def)
  moreover have "forecast7 d =
        fmul (fdiv (fsum (map KVt.Value (drop (length d - min 7 (length d)) d)))
                   (of_nat64 (min 7 (length d))))
             (Fin 7)"
    if "d \<noteq> []"
  proof -
    have w: "(if length d < 7 then length d else 7) = min 7 (length d)" by simp
    have "forecast7_loop d (length d - min 7 (length d)) (Fin 0) =
          fsum (map KVt.Value (drop (length d - min 7 (length d)) d))"
      unfolding fsum_def by (rule forecast7_loop_fold) simp
    with that show ?thesis
      unfolding forecast7_def Let_def w by simp
  qed
  ultimately show ?thesis by blast
qed

theorem forecast7_moving_average_witness:
  "rampSeries \<noteq> [] \<and> forecast7 rampSeries = Fin 420 \<and> forecast7 [] = Fin 0"
proof -
  have n: "rampSeries \<noteq> []" by (simp add: rampSeries_def)
  have m: "min 7 (length rampSeries) = 7" "length rampSeries - 7 = 2"
    by (simp_all add: series_lengths)
  have "forecast7 rampSeries =
        fmul (fdiv (fsum (map KVt.Value (drop (length rampSeries - min 7 (length rampSeries)) rampSeries)))
                   (of_nat64 (min 7 (length rampSeries))))
             (Fin 7)"
    using forecast7_moving_average [of rampSeries] n by blast
  also have "\<dots> = Fin 420"
    unfolding m of_nat64_small
    by (simp add: rampSeries_def fsum_def b64_steps
        del: fadd.simps fmul.simps fdiv.simps fsqrt.simps)
  finally have "forecast7 rampSeries = Fin 420" .
  moreover have "forecast7 [] = Fin 0"
    using forecast7_moving_average [of "[]"] by blast
  ultimately show ?thesis using n by (intro conjI)
qed

subsection \<open>Recommendation engine and the boundary of the anomaly threshold\<close>

lemma anomaly_steps_set:
  "set (foldl anomaly_step s anoms) \<subseteq>
     set s \<union> {m. \<exists>t z. (m = Dip t z \<and> flt z (Fin (- 2))) \<or> (m = Spike t z \<and> flt (Fin 2) z)}"
proof (induction anoms arbitrary: s)
  case Nil
  show ?case by simp
next
  case (Cons a anoms)
  have "set (anomaly_step s a) \<subseteq>
     set s \<union> {m. \<exists>t z. (m = Dip t z \<and> flt z (Fin (- 2))) \<or> (m = Spike t z \<and> flt (Fin 2) z)}"
    by (auto simp add: anomaly_step_def)
  with Cons.IH [of "anomaly_step s a"] show ?case by auto
qed

lemma suggestions_set:
  "set (suggestions tot aov oc ot topC topP anoms) \<subseteq>
     {Dunning oc ot, Bundles, Loyalty topC, DoubleDown topP}
     \<union> {m. \<exists>t z. (m = Dip t z \<and> flt z (Fin (- 2))) \<or> (m = Spike t z \<and> flt (Fin 2) z)}
     \<union> (if anoms = [] then {Steady} else {})"
proof -
  let ?A = "{m. \<exists>t z. (m = Dip t z \<and> flt z (Fin (- 2))) \<or> (m = Spike t z \<and> flt (Fin 2) z)}"
  define s0 where "s0 =
     (let s = [];
          s = (if oc > 0 then s @ [Dunning oc ot] else s);
          s = (if flt aov (Fin 50) then s @ [Bundles] else s);
          s = (if length topC > 0 then s @ [Loyalty topC] else s);
          s = (if length topP > 0 then s @ [DoubleDown topP] else s)
      in s)"
  have s0: "set s0 \<subseteq> {Dunning oc ot, Bundles, Loyalty topC, DoubleDown topP}"
    by (auto simp add: s0_def Let_def)
  have "suggestions tot aov oc ot topC topP anoms =
     foldl anomaly_step s0 anoms
       @ (if flt (Fin 0) tot \<and> flt (Fin 0) aov \<and> oc = 0 \<and> length anoms = 0 then [Steady] else [])"
    by (simp add: suggestions_def s0_def Let_def)
  moreover have "set (foldl anomaly_step s0 anoms) \<subseteq> set s0 \<union> ?A"
    by (rule anomaly_steps_set)
  ultimately show ?thesis using s0 by auto
qed

lemma feq_zero: "feq a (Fin 0) \<Longrightarrow> a = Fin 0"
  by (cases a) simp_all

lemma fdiv_zero_not_fin: "fdiv a (Fin 0) \<noteq> Fin (numeral w)" "fdiv a (Fin 0) \<noteq> Fin (- numeral w)"
  by (cases a; simp)+

lemma fz_boundary_std:
  assumes "fz vs v = Fin 2 \<or> fz vs v = Fin (- 2)"
  shows "\<not> feq (fstd vs) (Fin 0)"
proof
  assume "feq (fstd vs) (Fin 0)"
  then have "fstd vs = Fin 0" by (rule feq_zero)
  then have "fz vs v = fdiv (fsub v (fmean vs)) (Fin 0)" by (simp add: fz_def)
  with assms show False by (simp add: fdiv_zero_not_fin)
qed

text \<open>
  Claim C10, as stated, for every daily series: refuted by a series of five points. The
  totals 0, 0, 0, 0, 10 have mean 2 and population standard deviation 4, so the last day
  has z-score exactly 2, in exact arithmetic and in binary64 alike; the detector returns
  nothing for a series shorter than 7, and the recommendation engine then does emit the
  steady-performance message.
\<close>

theorem short_series_boundary_counterexample:
  "shortDay \<in> set shortSeries \<and>
   zscore (map (\<lambda>x. val (KVt.Value x)) shortSeries) (val (KVt.Value shortDay)) = 2 \<and>
   fz (map KVt.Value shortSeries) (KVt.Value shortDay) = Fin 2 \<and>
   detectAnomalies shortSeries = [] \<and>
   suggestions (Fin 10) (Fin 2) 0 (Fin 0) [] [] (detectAnomalies shortSeries) = [Bundles, Steady]"
proof -
  have d: "detectAnomalies shortSeries = []"
    by (simp add: detectAnomalies_unfold series_lengths)
  have z: "zscore (map (\<lambda>x. val (KVt.Value x)) shortSeries) (val (KVt.Value shortDay)) = 2"
    by (simp add: zscore_def short_exact shortDay_def)
  have f: "fz (map KVt.Value shortSeries) (KVt.Value shortDay) = Fin 2"
    unfolding fz_def short_stats
    by (simp add: shortDay_def b64_steps del: fadd.simps fmul.simps fdiv.simps fsqrt.simps)
  have x: "shortDay \<in> set shortSeries" by (simp add: shortSeries_def shortDay_def)
  have s: "suggestions (Fin 10) (Fin 2) 0 (Fin 0) [] [] (detectAnomalies shortSeries) = [Bundles, Steady]"
    unfolding d by (simp add: suggestions_def)
  from x z f d s show ?thesis by (intro conjI)
qed

text \<open>
  Claim C10, amended: for every daily series of at least 7 points and every day of it
  whose z-score, as the program computes it in binary64, is exactly 2 or exactly -2, the
  day is among the anomalies; the loop of the recommendation engine adds nothing for that
  anomaly, so no dip and no spike message cites the day with its z-score; and the
  steady-performance message is not emitted, whatever the other arguments of
  \<open>suggestions\<close> are.
\<close>

theorem boundary_anomaly_unreported:
  assumes "7 \<le> length d" and "x \<in> set d"
    and "fz (map KVt.Value d) (KVt.Value x) = Fin 2 \<or> fz (map KVt.Value d) (KVt.Value x) = Fin (- 2)"
  shows "anomalyOf d x \<in> set (detectAnomalies d) \<and>
         anomaly_step s (anomalyOf d x) = s \<and>
         Dip (KVt.Day x) (Z (anomalyOf d x))
           \<notin> set (suggestions tot aov oc ot topC topP (detectAnomalies d)) \<and>
         Spike (KVt.Day x) (Z (anomalyOf d x))
           \<notin> set (suggestions tot aov oc ot topC topP (detectAnomalies d)) \<and>
         Steady \<notin> set (suggestions tot aov oc ot topC topP (detectAnomalies d))"
proof -
  let ?z = "fz (map KVt.Value d) (KVt.Value x)"
  have std: "\<not> feq (fstd (map KVt.Value d)) (Fin 0)"
    using assms(3) by (rule fz_boundary_std)
  have abs2: "fle (Fin 2) (fabs ?z)" using assms(3) by auto
  have det: "detectAnomalies d =
      map (anomalyOf d) (filter (\<lambda>x. fle (Fin 2) (fabs (fz (map KVt.Value d) (KVt.Value x)))) d)"
    using assms(1) std by (simp add: detectAnomalies_unfold)
  have mem: "anomalyOf d x \<in> set (detectAnomalies d)"
    unfolding det using assms(2) abs2 by simp
  have Zx: "Z (anomalyOf d x) = ?z" by (simp add: anomalyOf_def)
  have nd: "\<not> flt ?z (Fin (- 2))" and ns: "\<not> flt (Fin 2) ?z"
    using assms(3) by auto
  have step: "anomaly_step s (anomalyOf d x) = s"
    using nd ns by (simp add: anomaly_step_def Zx)
  have ne: "detectAnomalies d \<noteq> []" using mem by auto
  have sub: "set (suggestions tot aov oc ot topC topP (detectAnomalies d)) \<subseteq>
     {Dunning oc ot, Bundles, Loyalty topC, DoubleDown topP}
     \<union> {m. \<exists>t z. (m = Dip t z \<and> flt z (Fin (- 2))) \<or> (m = Spike t z \<and> flt (Fin 2) z)}"
    using suggestions_set [of tot aov oc ot topC topP "detectAnomalies d"] ne by simp
  have "Dip (KVt.Day x) ?z \<notin> set (suggestions tot aov oc ot topC topP (detectAnomalies d))"
    using sub nd by auto
  moreover have "Spike (KVt.Day x) ?z \<notin> set (suggestions tot aov oc ot topC topP (detectAnomalies d))"
    using sub ns by auto
  moreover have "Steady \<notin> set (suggestions tot aov oc ot topC topP (detectAnomalies d))"
    using sub by auto
  ultimately show ?thesis using mem step by (simp add: Zx)
qed

theorem boundary_anomaly_unreported_witness:
  "7 \<le> length boundarySeries \<and> boundaryDay \<in> set boundarySeries \<and>
   fz (map KVt.Value boundarySeries) (KVt.Value boundaryDay) = Fin 2 \<and>
   \<lparr>Anomaly.Day = DateUTC 2025 7 9, Value = Fin 10, Z = Fin 2\<rparr> \<in> set (detectAnomalies boundarySeries) \<and>
   anomaly_step [] \<lparr>Anomaly.Day = DateUTC 2025 7 9, Value = Fin 10, Z = Fin 2\<rparr> = [] \<and>
   Dip (DateUTC 2025 7 9) (Fin 2)
     \<notin> set (suggestions (Fin 20) (Fin 2) 0 (Fin 0) [] [] (detectAnomalies boundarySeries)) \<and>
   Spike (DateUTC 2025 7 9) (Fin 2)
     \<notin> set (suggestions (Fin 20) (Fin 2) 0 (Fin 0) [] [] (detectAnomalies boundarySeries)) \<and>
   Steady \<notin> set (suggestions (Fin 20) (Fin 2) 0 (Fin 0) [] [] (detectAnomalies boundarySeries))"
proof -
  have l: "7 \<le> length boundarySeries" by (simp add: series_lengths)
  have x: "boundaryDay \<in> set boundarySeries" by (simp add: boundarySeries_def boundaryDay_def)
  have z: "fz (map KVt.Value boundarySeries) (KVt.Value boundaryDay) = Fin 2"
    unfolding fz_def boundary_stats
    by (simp add: boundaryDay_def b64_steps del: fadd.simps fmul.simps fdiv.simps fsqrt.simps)
  have a: "anomalyOf boundarySeries boundaryDay =
      \<lparr>Anomaly.Day = DateUTC 2025 7 9, Value = Fin 10, Z = Fin 2\<rparr>"
    using z by (simp add: anomalyOf_def boundaryDay_def)
  have d: "KVt.Day boundaryDay = DateUTC 2025 7 9" by (simp add: boundaryDay_def)
  have r: "Z \<lparr>Anomaly.Day = DateUTC 2025 7 9, Value = Fin 10, Z = Fin 2\<rparr> = Fin 2" by simp
  show ?thesis
    using boundary_anomaly_unreported [of boundarySeries boundaryDay "[]" "Fin 20" "Fin 2" 0 "Fin 0" "[]" "[]",
        OF l x] z l x
    unfolding a d r by simp
qed

subsection \<open>The main loop of the aggregator\<close>

lemma perm_sum: "mset xs = mset ys \<Longrightarrow> sum_list (map f xs) = (sum_list (map f ys) :: real)"
proof -
  assume "mset xs = mset ys"
  then have "sum_mset (image_mset f (mset xs)) = sum_mset (image_mset f (mset ys))" by simp
  then show ?thesis by (simp only: mset_map [symmetric] sum_mset_sum_list)
qed

lemma perm_filter: "mset xs = mset ys \<Longrightarrow> mset (filter P xs) = mset (filter P ys)"
  by (simp only: mset_filter)

lemma perm_length: "mset xs = mset ys \<Longrightarrow> length xs = length ys"
  by (rule mset_eq_length)

lemma perm_set: "mset xs = mset ys \<Longrightarrow> set xs = set ys"
  by (rule mset_eq_setD)

lemma perm_small_whole:
  assumes "mset xs = mset ys" and "small_whole xs"
  shows "small_whole ys"
proof -
  have "set xs = set ys" using assms(1) by (rule perm_set)
  moreover have "sum_list (map (\<lambda>v. \<bar>val v\<bar>) xs) = sum_list (map (\<lambda>v. \<bar>val v\<bar>) ys)"
    using assms(1) by (rule perm_sum)
  ultimately show ?thesis using assms(2) by (simp add: small_whole_def list_all_iff)
qed

lemma filter_abs_le:
  "sum_list (map (\<lambda>x. \<bar>f x :: real\<bar>) (filter P xs)) \<le> sum_list (map (\<lambda>x. \<bar>f x\<bar>) xs)"
  by (induction xs) auto

lemma filter_small_whole:
  assumes "small_whole (map f xs)"
  shows "small_whole (map f (filter P xs))"
proof -
  have "sum_list (map (\<lambda>x. \<bar>val (f x)\<bar>) (filter P xs)) \<le> sum_list (map (\<lambda>x. \<bar>val (f x)\<bar>) xs)"
    by (rule filter_abs_le)
  with assms show ?thesis
    by (simp add: small_whole_def list_all_iff comp_def)
qed

lemma fold_total:
  "total_rev (foldl (kpi_step lib) a xs) = foldl fadd (total_rev a) (map Amount xs)"
  by (induction xs arbitrary: a) (simp_all add: kpi_step_def Let_def)

lemma fold_orders: "orders (foldl (kpi_step lib) a xs) = orders a + length xs"
  by (induction xs arbitrary: a) (simp_all add: kpi_step_def Let_def)

lemma fold_overdueCount:
  "overdueCount (foldl (kpi_step lib) a xs) = overdueCount a + length (filter isOverdue xs)"
  by (induction xs arbitrary: a) (simp_all add: kpi_step_def Let_def)

lemma fold_overdueTotal:
  "overdueTotal (foldl (kpi_step lib) a xs) =
     foldl fadd (overdueTotal a) (map Amount (filter isOverdue xs))"
  by (induction xs arbitrary: a) (simp_all add: kpi_step_def Let_def)


lemma fold_customers:
  "distinct (map fst (customers a)) \<Longrightarrow>
   distinct (map fst (customers (foldl (kpi_step lib) a xs))) \<and>
   fst ` set (customers (foldl (kpi_step lib) a xs)) = fst ` set (customers a) \<union> Customer ` set xs"
proof (induction xs arbitrary: a)
  case Nil
  then show ?case by simp
next
  case (Cons x xs)
  have d: "distinct (map fst (customers (kpi_step lib a x)))"
    using Cons.prems by (simp add: kpi_step_def Let_def distinct_update)
  have s: "fst ` set (customers (kpi_step lib a x)) = insert (Customer x) (fst ` set (customers a))"
    by (simp add: kpi_step_def Let_def dom_update)
  from Cons.IH [OF d] s show ?case by auto
qed

lemma customers_count:
  "length (customers (foldl (kpi_step lib) acc0 xs)) = card (Customer ` set xs)"
proof -
  let ?c = "customers (foldl (kpi_step lib) acc0 xs)"
  have "distinct (map fst (customers acc0))" by (simp add: acc0_def)
  from fold_customers [OF this, of lib xs]
  have d: "distinct (map fst ?c)" and s: "fst ` set ?c = Customer ` set xs"
    by (simp_all add: acc0_def)
  have "length ?c = length (map fst ?c)" by simp
  also have "\<dots> = card (set (map fst ?c))" using d by (simp only: distinct_card)
  finally show ?thesis using s by simp
qed

lemma computeKPIs_fields:
  assumes "sales \<noteq> []"
  shows "TotalRevenue (computeKPIs lib ord sales) = total_rev (foldl (kpi_step lib) acc0 (sortSales lib sales))"
    and "Orders (computeKPIs lib ord sales) = orders (foldl (kpi_step lib) acc0 (sortSales lib sales))"
    and "OverdueCount (computeKPIs lib ord sales) = overdueCount (foldl (kpi_step lib) acc0 (sortSales lib sales))"
    and "OverdueTotal (computeKPIs lib ord sales) = overdueTotal (foldl (kpi_step lib) acc0 (sortSales lib sales))"
    and "UniqueCustomers (computeKPIs lib ord sales) = length (customers (foldl (kpi_step lib) acc0 (sortSales lib sales)))"
    and "DailyRevenue (computeKPIs lib ord sales) =
           sortDaily lib (map (toDaily lib) (rangeTotals ord ''dr'' (dr (foldl (kpi_step lib) acc0 (sortSales lib sales)))))"
    and "From (computeKPIs lib ord sales) = Date (hd (sortSales lib sales))"
    and "To (computeKPIs lib ord sales) = Date (last (sortSales lib sales))"
    and "AvgOrderValue (computeKPIs lib ord sales) =
           (if orders (foldl (kpi_step lib) acc0 (sortSales lib sales)) > 0
            then fdiv (total_rev (foldl (kpi_step lib) acc0 (sortSales lib sales)))
                      (of_nat64 (orders (foldl (kpi_step lib) acc0 (sortSales lib sales))))
            else Fin 0)"
  using assms by (simp_all add: computeKPIs_def Let_def)

text \<open>
  The sums of the report are sums in binary64, taken in the order of the sorted records;
  the counts do not depend on that order.
\<close>

lemma kpi_totals:
  assumes "\<forall>xs. mset (sortSales lib xs) = mset xs"
  shows "TotalRevenue (computeKPIs lib ord sales) = fsum (map Amount (sortSales lib sales))"
    and "Orders (computeKPIs lib ord sales) = length sales"
    and "OverdueCount (computeKPIs lib ord sales) = length (filter isOverdue sales)"
    and "OverdueTotal (computeKPIs lib ord sales) =
           fsum (map Amount (filter isOverdue (sortSales lib sales)))"
    and "UniqueCustomers (computeKPIs lib ord sales) = card (Customer ` set sales)"
proof -
  have p: "mset (sortSales lib sales) = mset sales" using assms by simp
  have e: "sortSales lib [] = []" using assms [rule_format, of "[]"] by simp
  show "TotalRevenue (computeKPIs lib ord sales) = fsum (map Amount (sortSales lib sales))"
  proof (cases "sales = []")
    case True then show ?thesis by (simp add: computeKPIs_def KPIs_zero_def e fsum_def)
  next
    case False
    then show ?thesis
      by (simp add: computeKPIs_fields fold_total acc0_def fsum_def)
  qed
  show "Orders (computeKPIs lib ord sales) = length sales"
  proof (cases "sales = []")
    case True then show ?thesis by (simp add: computeKPIs_def KPIs_zero_def)
  next
    case False
    then show ?thesis
      by (simp add: computeKPIs_fields fold_orders acc0_def perm_length [OF p])
  qed
  show "OverdueCount (computeKPIs lib ord sales) = length (filter isOverdue sales)"
  proof (cases "sales = []")
    case True then show ?thesis by (simp add: computeKPIs_def KPIs_zero_def)
  next
    case False
    then show ?thesis
      by (simp add: computeKPIs_fields fold_overdueCount acc0_def
          perm_length [OF perm_filter [OF p]])
  qed
  show "OverdueTotal (computeKPIs lib ord sales) =
           fsum (map Amount (filter isOverdue (sortSales lib sales)))"
  proof (cases "sales = []")
    case True then show ?thesis by (simp add: computeKPIs_def KPIs_zero_def e fsum_def)
  next
    case False
    then show ?thesis
      by (simp add: computeKPIs_fields fold_overdueTotal acc0_def fsum_def)
  qed
  show "UniqueCustomers (computeKPIs lib ord sales) = card (Customer ` set sales)"
  proof (cases "sales = []")
    case True then show ?thesis by (simp add: computeKPIs_def KPIs_zero_def)
  next
    case False
    then show ?thesis
      by (simp add: computeKPIs_fields customers_count perm_set [OF p])
  qed
qed

text \<open>
  When the amounts are whole numbers of absolute sum at most \<open>2 ^ 53\<close>, no addition
  rounds and the sums are the exact ones, whatever the order.
\<close>

lemma kpi_exact:
  assumes "\<forall>xs. mset (sortSales lib xs) = mset xs" and "small_whole (map Amount sales)"
  shows "TotalRevenue (computeKPIs lib ord sales) = Fin (sum_list (map (\<lambda>s. val (Amount s)) sales))"
    and "OverdueTotal (computeKPIs lib ord sales) =
           Fin (sum_list (map (\<lambda>s. val (Amount s)) (filter isOverdue sales)))"
proof -
  have p: "mset (sortSales lib sales) = mset sales" using assms(1) by simp
  then have pm: "mset (map Amount sales) = mset (map Amount (sortSales lib sales))" by simp
  have sw: "small_whole (map Amount (sortSales lib sales))"
    using pm assms(2) by (rule perm_small_whole)
  have "TotalRevenue (computeKPIs lib ord sales) = fsum (map Amount (sortSales lib sales))"
    by (rule kpi_totals(1) [OF assms(1)])
  also have "\<dots> = Fin (sum_list (map val (map Amount (sortSales lib sales))))"
    using sw by (rule fsum_exact)
  also have "sum_list (map val (map Amount (sortSales lib sales)))
      = sum_list (map (\<lambda>s. val (Amount s)) (sortSales lib sales))"
    by (simp add: comp_def)
  also have "\<dots> = sum_list (map (\<lambda>s. val (Amount s)) sales)"
    by (rule perm_sum [OF p])
  finally show "TotalRevenue (computeKPIs lib ord sales) = Fin (sum_list (map (\<lambda>s. val (Amount s)) sales))" .
  have "OverdueTotal (computeKPIs lib ord sales) =
      fsum (map Amount (filter isOverdue (sortSales lib sales)))"
    by (rule kpi_totals(4) [OF assms(1)])
  also have "\<dots> = Fin (sum_list (map val (map Amount (filter isOverdue (sortSales lib sales)))))"
    using filter_small_whole [OF sw] by (rule fsum_exact)
  also have "sum_list (map val (map Amount (filter isOverdue (sortSales lib sales))))
      = sum_list (map (\<lambda>s. val (Amount s)) (filter isOverdue (sortSales lib sales)))"
    by (simp add: comp_def)
  also have "\<dots> = sum_list (map (\<lambda>s. val (Amount s)) (filter isOverdue sales))"
    by (rule perm_sum [OF perm_filter [OF p]])
  finally show "OverdueTotal (computeKPIs lib ord sales) =
           Fin (sum_list (map (\<lambda>s. val (Amount s)) (filter isOverdue sales)))" .
qed

subsection \<open>Sorts that meet the contract\<close>

lemma sort_key_contract:
  fixes f :: "'a \<Rightarrow> int"
  shows "sort_contract (\<lambda>a b. f a < f b) (sort_key f)"
proof -
  have "sorted_wrt (\<lambda>a b. \<not> f b < f a) (sort_key f xs)" for xs
  proof -
    have "sorted (map f (sort_key f xs))" by (rule sorted_sort_key)
    then have "sorted_wrt (\<lambda>a b. f a \<le> f b) (sort_key f xs)"
      by (simp only: sorted_wrt_map)
    then show ?thesis by (simp add: not_less)
  qed
  then show ?thesis by (simp add: sort_contract_def)
qed

lemma demoLib_sorts:
  "sort_contract sales_less (sortSales demoLib)" "sort_contract daily_less (sortDaily demoLib)"
proof -
  have a: "sales_less = (\<lambda>a b. instant (Date a) < instant (Date b))"
    by (simp add: sales_less_def Before_def fun_eq_iff)
  have b: "daily_less = (\<lambda>a b. instant (KVt.Day a) < instant (KVt.Day b))"
    by (simp add: daily_less_def Before_def fun_eq_iff)
  show "sort_contract sales_less (sortSales demoLib)"
    unfolding a by (simp add: demoLib_def sort_key_contract)
  show "sort_contract daily_less (sortDaily demoLib)"
    unfolding b by (simp add: demoLib_def sort_key_contract)
qed

lemma contract_perm: "sort_contract lt srt \<Longrightarrow> \<forall>xs. mset (srt xs) = mset xs"
  by (simp add: sort_contract_def)

lemma example_small_whole: "small_whole (map Amount exampleSales)"
  by (simp add: small_whole_def exampleSales_def)

text \<open>
  Claim C2. On the six records of the example, whatever sort meeting the contract of
  \<^verbatim>\<open>sort.Slice\<close> and whatever map order are in force, the report has total revenue
  1234, 6 orders, 3 unique customers, overdue count 2, overdue total 398, and an average
  order value that is the binary64 quotient of 1234 by 6, the value
  \<open>7236252526269781 / 2 ^ 45\<close>, which is 205.67 to two decimals.
\<close>

theorem example_kpis:
  assumes "sort_contract sales_less (sortSales lib)"
  shows "TotalRevenue (computeKPIs lib ord exampleSales) = Fin 1234 \<and>
         Orders (computeKPIs lib ord exampleSales) = 6 \<and>
         UniqueCustomers (computeKPIs lib ord exampleSales) = 3 \<and>
         OverdueCount (computeKPIs lib ord exampleSales) = 2 \<and>
         OverdueTotal (computeKPIs lib ord exampleSales) = Fin 398 \<and>
         AvgOrderValue (computeKPIs lib ord exampleSales) = fdiv (Fin 1234) (Fin 6) \<and>
         AvgOrderValue (computeKPIs lib ord exampleSales) = dy 7236252526269781 45 \<and>
         \<bar>val (AvgOrderValue (computeKPIs lib ord exampleSales)) - 205.67\<bar> < 0.005"
proof -
  note p = contract_perm [OF assms]
  have ne: "exampleSales \<noteq> []" by (simp add: exampleSales_def)
  have t: "TotalRevenue (computeKPIs lib ord exampleSales) = Fin 1234"
    unfolding kpi_exact(1) [OF p example_small_whole] by (simp add: exampleSales_def)
  have n: "Orders (computeKPIs lib ord exampleSales) = 6"
    unfolding kpi_totals(2) [OF p] by (simp add: exampleSales_def)
  have u: "UniqueCustomers (computeKPIs lib ord exampleSales) = 3"
    unfolding kpi_totals(5) [OF p] set_map [symmetric] card_set
    by (simp add: exampleSales_def)
  have oc: "OverdueCount (computeKPIs lib ord exampleSales) = 2"
    unfolding kpi_totals(3) [OF p] by (simp add: exampleSales_def isOverdue_def)
  have ot: "OverdueTotal (computeKPIs lib ord exampleSales) = Fin 398"
    unfolding kpi_exact(2) [OF p example_small_whole] by (simp add: exampleSales_def isOverdue_def)
  have "AvgOrderValue (computeKPIs lib ord exampleSales) =
      (if Orders (computeKPIs lib ord exampleSales) > 0
       then fdiv (TotalRevenue (computeKPIs lib ord exampleSales))
                 (of_nat64 (Orders (computeKPIs lib ord exampleSales))) else Fin 0)"
    using ne by (simp add: computeKPIs_fields)
  then have a: "AvgOrderValue (computeKPIs lib ord exampleSales) = fdiv (Fin 1234) (Fin 6)"
    unfolding t n of_nat64_small by simp
  have b: "fdiv (Fin 1234) (Fin 6) = dy 7236252526269781 45"
    by (simp only: b64_steps)
  have c: "\<bar>val (dy 7236252526269781 45) - 205.67\<bar> < 0.005"
    by (simp add: val_dy)
  from t n u oc ot a b c show ?thesis by (simp only: simp_thms)
qed

theorem example_kpis_witness:
  "sort_contract sales_less (sortSales demoLib) \<and>
   TotalRevenue (computeKPIs demoLib insertionOrder exampleSales) = Fin 1234 \<and>
   Orders (computeKPIs demoLib insertionOrder exampleSales) = 6 \<and>
   UniqueCustomers (computeKPIs demoLib insertionOrder exampleSales) = 3 \<and>
   OverdueCount (computeKPIs demoLib insertionOrder exampleSales) = 2 \<and>
   OverdueTotal (computeKPIs demoLib insertionOrder exampleSales) = Fin 398 \<and>
   AvgOrderValue (computeKPIs demoLib insertionOrder exampleSales) = dy 7236252526269781 45"
  using example_kpis [OF demoLib_sorts(1), of insertionOrder] demoLib_sorts(1)
  by blast

subsection \<open>The daily series\<close>





lemma july_instants:
  "DateUTC 2025 7 1 = \<lparr>instant = 63886924800000000000\<rparr>"
  "DateUTC 2025 7 2 = \<lparr>instant = 63887011200000000000\<rparr>"
  "DateUTC 2025 7 3 = \<lparr>instant = 63887097600000000000\<rparr>"
  "DateUTC 2025 7 4 = \<lparr>instant = 63887184000000000000\<rparr>"
  "DateUTC 2025 7 5 = \<lparr>instant = 63887270400000000000\<rparr>"
  by (simp_all add: DateUTC_def daysSinceYear1_def)

lemma demo_sorted_example: "sortSales demoLib exampleSales = exampleSales"
  by (simp add: demoLib_def exampleSales_def july_instants)












subsection \<open>Sorting by date\<close>

lemma sorted_hd_min:
  assumes "sorted_wrt (\<lambda>a b. \<not> lt b a) ys" and "\<not> lt y y" and "y \<in> set ys"
  shows "\<not> lt y (hd ys)"
proof (cases ys)
  case Nil
  with assms(3) show ?thesis by simp
next
  case (Cons z zs)
  show ?thesis
  proof (cases "y = z")
    case True
    with assms(2) Cons show ?thesis by simp
  next
    case False
    with assms(3) Cons have "y \<in> set zs" by simp
    moreover from assms(1) Cons have "\<forall>b \<in> set zs. \<not> lt b z" by simp
    ultimately show ?thesis using Cons by simp
  qed
qed

lemma sorted_last_max:
  assumes "sorted_wrt (\<lambda>a b. \<not> lt b a) ys" and "\<not> lt y y" and "y \<in> set ys"
  shows "\<not> lt (last ys) y"
proof (cases ys rule: rev_cases)
  case Nil
  with assms(3) show ?thesis by simp
next
  case (snoc zs z)
  show ?thesis
  proof (cases "y = z")
    case True
    with assms(2) snoc show ?thesis by simp
  next
    case False
    with assms(3) snoc have "y \<in> set zs" by simp
    moreover from assms(1) snoc have "\<forall>a \<in> set zs. \<not> lt z a"
      by (simp add: sorted_wrt_append)
    ultimately show ?thesis using snoc by simp
  qed
qed

text \<open>
  Claim C7, amended. The first step of the aggregator reorders the records by date
  ascending: the result is a permutation of the input in which no record is dated before
  a record placed earlier. Hence the period start of the report is the date of some
  record and no record is dated before it, and the period end is the date of some record
  and no record is dated after it. Nothing is promised about the relative order of
  records of the same date.
\<close>

theorem sorted_by_date_period:
  assumes "sort_contract sales_less (sortSales lib)" and "sales \<noteq> []"
  shows "mset (sortSales lib sales) = mset sales \<and>
         sorted_wrt (\<lambda>a b. \<not> Before (Date b) (Date a)) (sortSales lib sales) \<and>
         From (computeKPIs lib ord sales) \<in> Date ` set sales \<and>
         To (computeKPIs lib ord sales) \<in> Date ` set sales \<and>
         (\<forall>s \<in> set sales. \<not> Before (Date s) (From (computeKPIs lib ord sales)) \<and>
                            \<not> Before (To (computeKPIs lib ord sales)) (Date s))"
proof -
  define ys where "ys = sortSales lib sales"
  have p: "mset ys = mset sales" using assms(1) by (simp add: sort_contract_def ys_def)
  have s: "sorted_wrt (\<lambda>a b. \<not> sales_less b a) ys"
    using assms(1) by (simp add: sort_contract_def ys_def)
  have irr: "\<not> sales_less a a" for a by (simp add: sales_less_def Before_def)
  have set_eq: "set ys = set sales" by (rule perm_set [OF p])
  have "length ys = length sales" by (rule perm_length [OF p])
  with assms(2) have ne: "ys \<noteq> []" by (cases ys) simp_all
  have f: "From (computeKPIs lib ord sales) = Date (hd ys)"
    and t: "To (computeKPIs lib ord sales) = Date (last ys)"
    using assms(2) by (simp_all add: computeKPIs_fields ys_def)
  have "hd ys \<in> set ys" "last ys \<in> set ys"
    using ne by simp_all
  then have hd_in: "hd ys \<in> set sales" and last_in: "last ys \<in> set sales"
    by (simp_all only: set_eq)
  have mem: "Date (hd ys) \<in> Date ` set sales" "Date (last ys) \<in> Date ` set sales"
    using hd_in last_in by (simp_all only: imageI)
  have lo: "\<not> Before (Date y) (Date (hd ys))" if "y \<in> set sales" for y
  proof -
    from that have "y \<in> set ys" by (simp only: set_eq)
    from sorted_hd_min [OF s irr this] show ?thesis unfolding sales_less_def .
  qed
  have hi: "\<not> Before (Date (last ys)) (Date y)" if "y \<in> set sales" for y
  proof -
    from that have "y \<in> set ys" by (simp only: set_eq)
    from sorted_last_max [OF s irr this] show ?thesis unfolding sales_less_def .
  qed
  have s': "sorted_wrt (\<lambda>a b. \<not> Before (Date b) (Date a)) ys"
    using s unfolding sales_less_def .
  have b: "\<forall>y \<in> set sales. \<not> Before (Date y) (Date (hd ys)) \<and> \<not> Before (Date (last ys)) (Date y)"
    using lo hi by blast
  show ?thesis
    unfolding f t ys_def [symmetric]
    by (intro conjI p s' mem b)
qed

lemma demo_period:
  "From (computeKPIs demoLib insertionOrder exampleSales) = DateUTC 2025 7 1"
  "To (computeKPIs demoLib insertionOrder exampleSales) = DateUTC 2025 7 5"
proof -
  have ne: "exampleSales \<noteq> []" by (simp add: exampleSales_def)
  show "From (computeKPIs demoLib insertionOrder exampleSales) = DateUTC 2025 7 1"
    unfolding computeKPIs_fields(7) [OF ne] demo_sorted_example by (simp add: exampleSales_def)
  show "To (computeKPIs demoLib insertionOrder exampleSales) = DateUTC 2025 7 5"
    unfolding computeKPIs_fields(8) [OF ne] demo_sorted_example by (simp add: exampleSales_def)
qed

theorem sorted_by_date_period_witness:
  "sort_contract sales_less (sortSales demoLib) \<and> exampleSales \<noteq> [] \<and>
   sortSales demoLib exampleSales = exampleSales \<and>
   From (computeKPIs demoLib insertionOrder exampleSales) = DateUTC 2025 7 1 \<and>
   To (computeKPIs demoLib insertionOrder exampleSales) = DateUTC 2025 7 5 \<and>
   filter (\<lambda>s. Before (Date s) (DateUTC 2025 7 1) \<or> Before (DateUTC 2025 7 5) (Date s))
     exampleSales = []"
proof -
  have ne: "exampleSales \<noteq> []" by (simp add: exampleSales_def)
  show ?thesis
    using sorted_by_date_period [OF demoLib_sorts(1) ne, of insertionOrder] demoLib_sorts(1) ne
    by (simp add: demo_period demo_sorted_example filter_empty_conv)
qed

lemma sorted_filter_wrt: "sorted_wrt R xs \<Longrightarrow> sorted_wrt R (filter P xs)"
  by (induction xs) auto

lemma pivotSort_contract: "sort_contract sales_less pivotSort"
proof -
  have less: "sales_less b a \<longleftrightarrow> dateKey b < dateKey a" for a b
    by (simp add: sales_less_def Before_def dateKey_def)
  have srt: "sorted_wrt (\<lambda>a b. \<not> dateKey b < dateKey a) (sort_key dateKey ys)" for ys
  proof -
    have "sorted (map dateKey (sort_key dateKey ys))" by (rule sorted_sort_key)
    then have "sorted_wrt (\<lambda>a b. dateKey a \<le> dateKey b) (sort_key dateKey ys)"
      by (simp only: sorted_wrt_map)
    then show ?thesis by (simp add: not_less)
  qed
  have "mset (pivotSort xs) = mset xs \<and> sorted_wrt (\<lambda>a b. \<not> dateKey b < dateKey a) (pivotSort xs)"
    for xs
  proof (cases "length xs \<le> 12")
    case True
    then show ?thesis using srt [of xs] by (simp add: pivotSort_def)
  next
    case False
    define p where "p = 2 * (length xs div 4)"
    define rest where "rest = sort_key dateKey (take p xs @ drop (Suc p) xs)"
    define A where "A = filter (\<lambda>s. dateKey s < dateKey (xs ! p)) rest"
    define B where "B = filter (\<lambda>s. \<not> dateKey s < dateKey (xs ! p)) rest"
    have ps: "pivotSort xs = A @ [xs ! p] @ B"
      using False by (simp add: pivotSort_def Let_def p_def rest_def A_def B_def)
    have plt: "p < length xs" using False by (simp add: p_def)
    have "mset (A @ B) = mset rest"
      unfolding A_def B_def by simp
    then have "mset (A @ [xs ! p] @ B) = mset rest + {#xs ! p#}" by simp
    also have "\<dots> = mset (take p xs @ xs ! p # drop (Suc p) xs)"
      by (simp add: rest_def)
    also have "\<dots> = mset xs"
      using plt by (simp only: id_take_nth_drop [symmetric])
    finally have m: "mset (pivotSort xs) = mset xs" by (simp only: ps)
    have sr: "sorted_wrt (\<lambda>a b. \<not> dateKey b < dateKey a) rest"
      unfolding rest_def by (rule srt)
    have sA: "sorted_wrt (\<lambda>a b. \<not> dateKey b < dateKey a) A"
      and sB: "sorted_wrt (\<lambda>a b. \<not> dateKey b < dateKey a) B"
      unfolding A_def B_def using sr by (simp_all only: sorted_filter_wrt)
    have "sorted_wrt (\<lambda>a b. \<not> dateKey b < dateKey a) (A @ [xs ! p] @ B)"
      using sA sB by (auto simp add: sorted_wrt_append A_def B_def)
    with m ps show ?thesis by simp
  qed
  then show ?thesis by (simp add: sort_contract_def less)
qed

lemma dayRec_keys: "dateKey (dayRec 1 c) = 63886924800000000000" "dateKey (dayRec 2 c) = 63887011200000000000"
  by (simp_all add: dateKey_def dayRec_def july_instants)

text \<open>
  Claim C7, as stated: the program calls \<^verbatim>\<open>sort.Slice\<close>, whose contract does not
  include stability. \<open>pivotLib\<close> sorts within that contract. Given the thirteen records,
  it returns the record at index 6 ahead of the records at indices 1 to 5, which have the
  same date and preceded it in the input.
\<close>

theorem sort_not_stable_counterexample:
  "sort_contract sales_less (sortSales pivotLib) \<and>
   sortSales pivotLib thirteenSales =
     dayRec 1 ''r6'' #
     map (dayRec 1)
       [''r1'', ''r2'', ''r3'', ''r4'', ''r5'', ''r7'', ''r8'', ''r9'', ''r10'', ''r11'', ''r12'']
     @ [dayRec 2 ''r0''] \<and>
   \<not> stable_on (sortSales pivotLib) thirteenSales"
proof -
  have c: "sort_contract sales_less (sortSales pivotLib)"
    by (simp add: pivotLib_def pivotSort_contract)
  have r: "sortSales pivotLib thirteenSales =
     dayRec 1 ''r6'' #
     map (dayRec 1)
       [''r1'', ''r2'', ''r3'', ''r4'', ''r5'', ''r7'', ''r8'', ''r9'', ''r10'', ''r11'', ''r12'']
     @ [dayRec 2 ''r0'']"
    by (simp add: pivotLib_def pivotSort_def thirteenSales_def dayRec_keys Let_def)
  have d: "Date (dayRec 1 c) = DateUTC 2025 7 1" "Date (dayRec 2 c) = DateUTC 2025 7 2" for c
    by (simp_all add: dayRec_def)
  have n: "DateUTC 2025 7 2 \<noteq> DateUTC 2025 7 1" by (simp add: july_instants)
  have g: "dayRec 1 ''r6'' \<noteq> dayRec 1 ''r1''" by (simp add: dayRec_def)
  have "filter (\<lambda>s. Date s = DateUTC 2025 7 1) (sortSales pivotLib thirteenSales)
        \<noteq> filter (\<lambda>s. Date s = DateUTC 2025 7 1) thirteenSales"
    unfolding r by (simp add: thirteenSales_def d n g)
  then have "\<not> stable_on (sortSales pivotLib) thirteenSales"
    unfolding stable_on_def by blast
  with c r show ?thesis by simp
qed

subsection \<open>Trimming\<close>

lemma TrimSpace_plain [simp]:
  "TrimSpace ''date'' = ''date''" "TrimSpace ''customer'' = ''customer''"
  "TrimSpace ''product'' = ''product''" "TrimSpace ''amount'' = ''amount''"
  "TrimSpace ''status'' = ''status''"
  by (simp_all add: TrimSpace_def trimBy.simps spaceWidth_def whiteSpace_def)

lemma TrimSpace_cells [simp]:
  "TrimSpace ''2025-07-01'' = ''2025-07-01''" "TrimSpace ''2025-07-04'' = ''2025-07-04''"
  "TrimSpace ''0001-01-01'' = ''0001-01-01''"
  "TrimSpace ''soon'' = ''soon''" "TrimSpace ''Acme'' = ''Acme''" "TrimSpace ''Zen'' = ''Zen''"
  "TrimSpace ''WidgetA'' = ''WidgetA''" "TrimSpace ''199'' = ''199''"
  "TrimSpace ''paid'' = ''paid''" "TrimSpace ''unpaid'' = ''unpaid''"
  "TrimSpace ''Overdue'' = ''Overdue''"
  "TrimSpace ''01/02/2006'' = ''01/02/2006''" "TrimSpace ''2025/07/01'' = ''2025/07/01''"
  by (simp_all add: TrimSpace_def trimBy.simps spaceWidth_def whiteSpace_def)

text \<open>
  A date between a no-break space (U+00A0) and an em space (U+2003) followed by a blank:
  all three are removed.
\<close>

lemma TrimSpace_unicode:
  "TrimSpace ([CHR 0xC2, CHR 0xA0] @ ''2025-07-01'' @ [CHR 0xE2, CHR 0x80, CHR 0x83, CHR 0x20])
     = ''2025-07-01''"
  by (simp add: TrimSpace_def trimBy.simps spaceWidth_def whiteSpace_def)

subsection \<open>Date layouts\<close>

lemma tryLayouts_map_filter:
  "tryLayouts lib fs s =
     (case List.map_filter (\<lambda>f. Parse lib f s) fs of [] \<Rightarrow> None | t # ts \<Rightarrow> Some t)"
  by (induction fs) (simp_all add: map_filter_simps split: option.splits)

lemma firstParsed_append:
  "firstParsed lib (fs @ gs) s =
     (case tryLayouts lib fs s of Some t \<Rightarrow> t | None \<Rightarrow> firstParsed lib gs s)"
  by (induction fs) (simp_all add: firstParsed_def map_filter_simps split: option.splits)

lemma firstParsed_single:
  "firstParsed lib [f] s = (case Parse lib f s of Some t \<Rightarrow> t | None \<Rightarrow> zeroTime)"
  by (simp add: firstParsed_def map_filter_simps split: option.splits)

lemma layouts_candidates: "layouts = candidates @ [''2006-01'']"
  by (simp add: layouts_def candidates_def RFC3339_def)

lemma parseDateFlexible_firstParsed:
  "parseDateFlexible lib s = firstParsed lib layouts (TrimSpace s)"
  unfolding layouts_candidates
  by (simp add: parseDateFlexible_def firstParsed_append firstParsed_single Let_def
      split: option.splits)

text \<open>
  Claim C6, amended. Date parsing trims the cell and tries seven layouts in this order:
  ISO date, day/month/year with slashes, month/day/year with slashes, year/month/day
  with slashes, year.month.day with dots, the RFC 3339 timestamp, and year-month; the
  first layout that parses gives the result and the zero time stands for failure. In
  particular, a string that the ISO layout rejects and the day/month layout accepts gets
  the day/month reading, whether or not the month/day layout accepts it too.
\<close>

theorem parseDateFlexible_order:
  "parseDateFlexible lib s =
     firstParsed lib
       [''2006-01-02'', ''02/01/2006'', ''01/02/2006'', ''2006/01/02'', ''2006.01.02'',
        ''2006-01-02T15:04:05Z07:00'', ''2006-01''] (TrimSpace s) \<and>
   (Parse lib ''2006-01-02'' (TrimSpace s) = None \<and> Parse lib ''02/01/2006'' (TrimSpace s) = Some t
      \<longrightarrow> parseDateFlexible lib s = t)"
proof -
  have a: "parseDateFlexible lib s =
     firstParsed lib
       [''2006-01-02'', ''02/01/2006'', ''01/02/2006'', ''2006/01/02'', ''2006.01.02'',
        ''2006-01-02T15:04:05Z07:00'', ''2006-01''] (TrimSpace s)"
    unfolding parseDateFlexible_firstParsed layouts_def ..
  have b: "parseDateFlexible lib s = t"
    if "Parse lib ''2006-01-02'' (TrimSpace s) = None \<and> Parse lib ''02/01/2006'' (TrimSpace s) = Some t"
    unfolding a using that by (simp add: firstParsed_def map_filter_simps)
  from a b show ?thesis by blast
qed

theorem parseDateFlexible_order_witness:
  "Parse demoLib ''2006-01-02'' (TrimSpace ''01/02/2006'') = None \<and>
   Parse demoLib ''02/01/2006'' (TrimSpace ''01/02/2006'') = Some (DateUTC 2006 2 1) \<and>
   Parse demoLib ''01/02/2006'' (TrimSpace ''01/02/2006'') = Some (DateUTC 2006 1 2) \<and>
   parseDateFlexible demoLib ''01/02/2006'' = DateUTC 2006 2 1 \<and>
   DateUTC 2006 2 1 \<noteq> DateUTC 2006 1 2"
proof -
  have p: "Parse demoLib ''2006-01-02'' (TrimSpace ''01/02/2006'') = None"
    "Parse demoLib ''02/01/2006'' (TrimSpace ''01/02/2006'') = Some (DateUTC 2006 2 1)"
    "Parse demoLib ''01/02/2006'' (TrimSpace ''01/02/2006'') = Some (DateUTC 2006 1 2)"
    by (simp_all add: demoLib_def parseTable_def julyDays_def)
  have n: "DateUTC 2006 2 1 \<noteq> DateUTC 2006 1 2"
    by (simp add: DateUTC_def daysSinceYear1_def)
  have "parseDateFlexible demoLib ''01/02/2006'' = DateUTC 2006 2 1"
    using parseDateFlexible_order [of demoLib "''01/02/2006''" "DateUTC 2006 2 1"] p(1,2)
    by blast
  with p n show ?thesis by (intro conjI)
qed

text \<open>
  Claim C6, as stated, with exactly six layouts: refuted by "2025/07/01". None of the six
  accepts it, so the claimed list yields the zero time; the program's fourth layout,
  year/month/day with slashes, accepts it and the program returns July 1, 2025.
\<close>

theorem year_first_slash_counterexample:
  "parseDateFlexible demoLib ''2025/07/01'' = DateUTC 2025 7 1 \<and>
   firstParsed demoLib claimed_layouts (TrimSpace ''2025/07/01'') = zeroTime \<and>
   DateUTC 2025 7 1 \<noteq> zeroTime"
proof -
  have a: "parseDateFlexible demoLib ''2025/07/01'' = DateUTC 2025 7 1"
    unfolding parseDateFlexible_def Let_def TrimSpace_cells
    by (simp add: candidates_def RFC3339_def demoLib_def parseTable_def julyDays_def)
  have b: "firstParsed demoLib claimed_layouts (TrimSpace ''2025/07/01'') = zeroTime"
    unfolding TrimSpace_cells
    by (simp add: firstParsed_def claimed_layouts_def map_filter_simps demoLib_def parseTable_def
        julyDays_def)
  have c: "DateUTC 2025 7 1 \<noteq> zeroTime"
    by (simp add: july_instants zeroTime_def)
  from a b c show ?thesis by simp
qed

subsection \<open>Ingestion\<close>

lemma tryLayouts_None: "tryLayouts lib fs s = None \<longleftrightarrow> list_all (\<lambda>f. Parse lib f s = None) fs"
  by (induction fs) (simp_all split: option.splits)

lemma firstParsed_None:
  "list_all (\<lambda>f. Parse lib f s = None) fs \<Longrightarrow> firstParsed lib fs s = zeroTime"
  by (induction fs) (simp_all add: firstParsed_def map_filter_simps)

lemma unparsable_zero: "unparsable lib ds \<Longrightarrow> firstParsed lib layouts (TrimSpace ds) = zeroTime"
  unfolding unparsable_def by (rule firstParsed_None)

lemma IsZero_zeroTime: "IsZero t \<longleftrightarrow> t = zeroTime"
  by (cases t) (simp add: IsZero_def zeroTime_def)

text \<open>The test of the loop is the test \<open>keepRow\<close>.\<close>

lemma keepRow_code:
  "keepRow lib ord h ir \<longleftrightarrow>
     get ord h (fst ir) (snd ir) ''date'' \<noteq> [] \<and>
     \<not> IsZero (parseDateFlexible lib (get ord h (fst ir) (snd ir) ''date''))"
  using unparsable_zero [of lib "dateCell ord h ir"]
  by (auto simp add: keepRow_def claimedRow_def dateCell_def IsZero_zeroTime
      parseDateFlexible_firstParsed)

lemma rowSale_code:
  "rowSale lib ord h ir =
     mkSale lib ord h (fst ir) (snd ir) (parseDateFlexible lib (get ord h (fst ir) (snd ir) ''date''))"
  by (simp add: rowSale_def dateCell_def parseDateFlexible_firstParsed)

lemma rows_loop_eq:
  "rows_loop lib ord h i rows out =
     out @ map (rowSale lib ord h) (filter (keepRow lib ord h) (List.enumerate i rows))"
proof (induction rows arbitrary: i out)
  case Nil
  show ?case by simp
next
  case (Cons row rows)
  show ?case
    by (simp add: Cons.IH keepRow_code rowSale_code Let_def)
qed

lemma parseCSV_cases:
  "parseCSV lib ord r =
     (case snd (ReadAll lib r) of
        Some e \<Rightarrow> ([], Some (CsvRead e))
      | None \<Rightarrow>
          if length (fst (ReadAll lib r)) < 2 then ([], Some NoDataRows)
          else (map (rowSale lib ord (headerMap lib (hd (fst (ReadAll lib r)))))
                  (filter (keepRow lib ord (headerMap lib (hd (fst (ReadAll lib r)))))
                     (List.enumerate 0 (tl (fst (ReadAll lib r))))), None))"
  by (simp add: parseCSV_def rows_loop_eq split_beta split: option.splits)

lemma dropped_rows:
  assumes "dateCell ord h ir = [] \<or> unparsable lib (dateCell ord h ir)"
  shows "\<not> keepRow lib ord h ir"
  using assms by (auto simp add: keepRow_def claimedRow_def)

lemma demo_readAll:
  "ReadAll demoLib exampleCsv = (exampleRecords, None)"
  "ReadAll demoLib yearOneCsv = (yearOneRecords, None)"
  "ReadAll demoLib headerOnlyCsv = ([[''date'', ''amount'']], None)"
  "ReadAll demoLib brokenCsv = ([], Some ErrBareQuote)"
  by (simp_all add: demoLib_def csvTable_def exampleCsv_def yearOneCsv_def headerOnlyCsv_def
      brokenCsv_def)

lemma demo_lower:
  "ToLower demoLib ''date'' = ''date''" "ToLower demoLib ''customer'' = ''customer''"
  "ToLower demoLib ''product'' = ''product''" "ToLower demoLib ''amount'' = ''amount''"
  "ToLower demoLib ''status'' = ''status''" "ToLower demoLib ''paid'' = ''paid''"
  "ToLower demoLib ''Overdue'' = ''overdue''"
  by (simp_all add: demoLib_def asciiLower_def toLowerChar_def)

lemma demo_header:
  "headerMap demoLib [''date'', ''customer'', ''product'', ''amount'', ''status''] =
     [(''date'', 0), (''customer'', 1), (''product'', 2), (''amount'', 3), (''status'', 4)]"
  by (simp add: headerMap_def demo_lower)

lemma demo_dates:
  "parseDateFlexible demoLib ''2025-07-01'' = DateUTC 2025 7 1"
  "parseDateFlexible demoLib ''2025-07-04'' = DateUTC 2025 7 4"
  "parseDateFlexible demoLib ''0001-01-01'' = DateUTC 1 1 1"
  "parseDateFlexible demoLib ''soon'' = zeroTime"
  by (simp_all add: parseDateFlexible_def candidates_def RFC3339_def demoLib_def parseTable_def
      julyDays_def)

lemma year_one: "DateUTC 1 1 1 = zeroTime"
  by (simp add: DateUTC_def daysSinceYear1_def zeroTime_def)

lemma demo_nonzero:
  "\<not> IsZero (DateUTC 2025 7 1)" "\<not> IsZero (DateUTC 2025 7 4)" "IsZero zeroTime"
  "IsZero (DateUTC 1 1 1)"
  by (simp_all add: IsZero_def july_instants zeroTime_def year_one)

lemma demo_cells:
  "ParseFloat demoLib (ReplaceAll_comma ''199'') = Fin 199"
  "nz ''Acme'' ''Unknown'' = ''Acme''" "nz ''Zen'' ''Unknown'' = ''Zen''"
  "nz ''WidgetA'' ''Unknown'' = ''WidgetA''"
  by (simp_all add: demoLib_def floatTable_def ReplaceAll_comma_def nz_def)

lemma demo_rows:
  "rows_loop demoLib insertionOrder
     [(''date'', 0), (''customer'', 1), (''product'', 2), (''amount'', 3), (''status'', 4)]
     0 (tl exampleRecords) [] =
   [\<lparr>Date = DateUTC 2025 7 1, Customer = ''Acme'', Product = ''WidgetA'', Amount = Fin 199, Status = ''paid''\<rparr>,
    \<lparr>Date = DateUTC 2025 7 4, Customer = ''Zen'', Product = ''WidgetA'', Amount = Fin 199, Status = ''overdue''\<rparr>]"
  by (simp add: exampleRecords_def get_def insertionOrder_def demo_dates demo_nonzero
      mkSale_def demo_cells demo_lower Let_def)

lemma demo_parseCSV:
  "parseCSV demoLib insertionOrder exampleCsv =
     ([\<lparr>Date = DateUTC 2025 7 1, Customer = ''Acme'', Product = ''WidgetA'', Amount = Fin 199, Status = ''paid''\<rparr>,
       \<lparr>Date = DateUTC 2025 7 4, Customer = ''Zen'', Product = ''WidgetA'', Amount = Fin 199, Status = ''overdue''\<rparr>],
      None)"
proof -
  have h: "hd exampleRecords = [''date'', ''customer'', ''product'', ''amount'', ''status'']"
    and n: "\<not> length exampleRecords < 2"
    by (simp_all add: exampleRecords_def)
  have "rows_loop demoLib insertionOrder (headerMap demoLib (hd exampleRecords)) 0 (tl exampleRecords) [] =
     [\<lparr>Date = DateUTC 2025 7 1, Customer = ''Acme'', Product = ''WidgetA'', Amount = Fin 199, Status = ''paid''\<rparr>,
      \<lparr>Date = DateUTC 2025 7 4, Customer = ''Zen'', Product = ''WidgetA'', Amount = Fin 199, Status = ''overdue''\<rparr>]"
    unfolding h demo_header by (rule demo_rows)
  then show ?thesis
    by (simp add: parseCSV_def demo_readAll n)
qed

lemma yearOne_rows:
  "rows_loop demoLib insertionOrder
     [(''date'', 0), (''customer'', 1), (''product'', 2), (''amount'', 3), (''status'', 4)]
     0 (tl yearOneRecords) [] =
   [\<lparr>Date = DateUTC 2025 7 4, Customer = ''Zen'', Product = ''WidgetA'', Amount = Fin 199, Status = ''paid''\<rparr>]"
  by (simp add: yearOneRecords_def get_def insertionOrder_def demo_dates demo_nonzero
      mkSale_def demo_cells demo_lower Let_def)

text \<open>
  Claim C3, as stated: refuted by a CSV text whose first data row is dated "0001-01-01".
  The date cell is present and the first layout parses it, to January 1 of year 1, which
  is the zero time; the program takes the zero time for a failure and drops the row. The
  row is neither missing a date nor unparsable, and the returned sequence lacks it.
\<close>

theorem year_one_row_counterexample:
  "ReadAll demoLib yearOneCsv = (yearOneRecords, None) \<and>
   dateCell insertionOrder (headerMap demoLib (hd yearOneRecords)) (0, yearOneRecords ! 1)
     = ''0001-01-01'' \<and>
   Parse demoLib ''2006-01-02'' (TrimSpace ''0001-01-01'') = Some (DateUTC 1 1 1) \<and>
   DateUTC 1 1 1 = zeroTime \<and>
   claimedRow demoLib insertionOrder (headerMap demoLib (hd yearOneRecords)) (0, yearOneRecords ! 1) \<and>
   length (filter (claimedRow demoLib insertionOrder (headerMap demoLib (hd yearOneRecords)))
             (List.enumerate 0 (tl yearOneRecords))) = 2 \<and>
   parseCSV demoLib insertionOrder yearOneCsv =
     ([\<lparr>Date = DateUTC 2025 7 4, Customer = ''Zen'', Product = ''WidgetA'', Amount = Fin 199, Status = ''paid''\<rparr>],
      None)"
proof -
  have h: "hd yearOneRecords = [''date'', ''customer'', ''product'', ''amount'', ''status'']"
    and n: "\<not> length yearOneRecords < 2"
    by (simp_all add: yearOneRecords_def)
  have c: "dateCell insertionOrder
             [(''date'', 0), (''customer'', 1), (''product'', 2), (''amount'', 3), (''status'', 4)]
             (0, yearOneRecords ! 1) = ''0001-01-01''"
    "dateCell insertionOrder
             [(''date'', 0), (''customer'', 1), (''product'', 2), (''amount'', 3), (''status'', 4)]
             (Suc 0, yearOneRecords ! 2) = ''2025-07-04''"
    by (simp_all add: dateCell_def get_def insertionOrder_def yearOneRecords_def)
  have p: "Parse demoLib ''2006-01-02'' (TrimSpace ''0001-01-01'') = Some (DateUTC 1 1 1)"
    "Parse demoLib ''2006-01-02'' (TrimSpace ''2025-07-04'') = Some (DateUTC 2025 7 4)"
    by (simp_all add: demoLib_def parseTable_def julyDays_def)
  have u: "\<not> unparsable demoLib ''0001-01-01''" "\<not> unparsable demoLib ''2025-07-04''"
    using p by (simp_all add: unparsable_def layouts_def)
  have k: "claimedRow demoLib insertionOrder
             [(''date'', 0), (''customer'', 1), (''product'', 2), (''amount'', 3), (''status'', 4)]
             (0, yearOneRecords ! 1)"
    "claimedRow demoLib insertionOrder
             [(''date'', 0), (''customer'', 1), (''product'', 2), (''amount'', 3), (''status'', 4)]
             (Suc 0, yearOneRecords ! 2)"
    unfolding claimedRow_def c using u by simp_all
  have e: "List.enumerate 0 (tl yearOneRecords) = [(0, yearOneRecords ! 1), (Suc 0, yearOneRecords ! 2)]"
    by (simp add: yearOneRecords_def)
  have l: "length (filter (claimedRow demoLib insertionOrder
             [(''date'', 0), (''customer'', 1), (''product'', 2), (''amount'', 3), (''status'', 4)])
             (List.enumerate 0 (tl yearOneRecords))) = 2"
    unfolding e using k by simp
  have "rows_loop demoLib insertionOrder (headerMap demoLib (hd yearOneRecords)) 0 (tl yearOneRecords) [] =
     [\<lparr>Date = DateUTC 2025 7 4, Customer = ''Zen'', Product = ''WidgetA'', Amount = Fin 199, Status = ''paid''\<rparr>]"
    unfolding h demo_header by (rule yearOne_rows)
  then have r: "parseCSV demoLib insertionOrder yearOneCsv =
     ([\<lparr>Date = DateUTC 2025 7 4, Customer = ''Zen'', Product = ''WidgetA'', Amount = Fin 199, Status = ''paid''\<rparr>],
      None)"
    by (simp add: parseCSV_def demo_readAll n)
  show ?thesis
    unfolding h demo_header
    using demo_readAll(2) c(1) p(1) year_one k(1) l r by (intro conjI)
qed

text \<open>
  Claim C3, amended. \<^verbatim>\<open>parseCSV\<close> returns an error exactly when the reader reports
  the input as not well-formed or yields fewer than two rows. With an error the slice it
  returns is empty. Without one, the slice holds one record for every kept data row, in
  row order, and nothing else, where a row is kept exactly when its date cell is present,
  is accepted by one of the seven layouts, and the first layout that accepts it does not
  yield the zero time (January 1 of year 1, 00:00 UTC); in particular a row whose date
  cell is missing, or is accepted by none of the layouts, is not kept.
\<close>

theorem parseCSV_error_or_records:
  "(snd (parseCSV lib ord r) \<noteq> None \<longleftrightarrow>
      snd (ReadAll lib r) \<noteq> None \<or> length (fst (ReadAll lib r)) < 2) \<and>
   (snd (parseCSV lib ord r) \<noteq> None \<longrightarrow> fst (parseCSV lib ord r) = []) \<and>
   (snd (parseCSV lib ord r) = None \<longrightarrow>
      fst (parseCSV lib ord r) =
        map (rowSale lib ord (headerMap lib (hd (fst (ReadAll lib r)))))
          (filter (keepRow lib ord (headerMap lib (hd (fst (ReadAll lib r)))))
             (List.enumerate 0 (tl (fst (ReadAll lib r)))))) \<and>
   (dateCell ord h ir = [] \<or> unparsable lib (dateCell ord h ir) \<longrightarrow> \<not> keepRow lib ord h ir)"
proof (intro conjI)
  show "snd (parseCSV lib ord r) \<noteq> None \<longleftrightarrow>
      snd (ReadAll lib r) \<noteq> None \<or> length (fst (ReadAll lib r)) < 2"
    by (simp add: parseCSV_cases split: option.splits)
  show "snd (parseCSV lib ord r) \<noteq> None \<longrightarrow> fst (parseCSV lib ord r) = []"
    by (simp add: parseCSV_cases split: option.splits)
  show "snd (parseCSV lib ord r) = None \<longrightarrow>
      fst (parseCSV lib ord r) =
        map (rowSale lib ord (headerMap lib (hd (fst (ReadAll lib r)))))
          (filter (keepRow lib ord (headerMap lib (hd (fst (ReadAll lib r)))))
             (List.enumerate 0 (tl (fst (ReadAll lib r)))))"
    by (simp add: parseCSV_cases split: option.splits)
  show "dateCell ord h ir = [] \<or> unparsable lib (dateCell ord h ir) \<longrightarrow> \<not> keepRow lib ord h ir"
    using dropped_rows [of ord h ir lib] by blast
qed

theorem parseCSV_error_or_records_witness:
  "snd (ReadAll demoLib brokenCsv) \<noteq> None \<and>
   parseCSV demoLib insertionOrder brokenCsv = ([], Some (CsvRead ErrBareQuote)) \<and>
   length (fst (ReadAll demoLib headerOnlyCsv)) < 2 \<and>
   parseCSV demoLib insertionOrder headerOnlyCsv = ([], Some NoDataRows) \<and>
   ReadAll demoLib exampleCsv = (exampleRecords, None) \<and>
   parseCSV demoLib insertionOrder exampleCsv =
     ([\<lparr>Date = DateUTC 2025 7 1, Customer = ''Acme'', Product = ''WidgetA'', Amount = Fin 199, Status = ''paid''\<rparr>,
       \<lparr>Date = DateUTC 2025 7 4, Customer = ''Zen'', Product = ''WidgetA'', Amount = Fin 199, Status = ''overdue''\<rparr>],
      None) \<and>
   unparsable demoLib ''soon''"
proof -
  have u: "unparsable demoLib ''soon''"
    by (simp add: unparsable_def layouts_def demoLib_def parseTable_def julyDays_def)
  have b: "snd (parseCSV demoLib insertionOrder brokenCsv) = Some (CsvRead ErrBareQuote)"
    by (simp add: parseCSV_def demo_readAll)
  have e: "snd (parseCSV demoLib insertionOrder headerOnlyCsv) = Some NoDataRows"
    by (simp add: parseCSV_def demo_readAll)
  have "fst (parseCSV demoLib insertionOrder brokenCsv) = []"
    using parseCSV_error_or_records [of demoLib insertionOrder brokenCsv] b by simp
  moreover have "fst (parseCSV demoLib insertionOrder headerOnlyCsv) = []"
    using parseCSV_error_or_records [of demoLib insertionOrder headerOnlyCsv] e by simp
  ultimately show ?thesis
    using b e u by (simp add: demo_readAll demo_parseCSV prod_eq_iff)
qed

subsection \<open>Header lookup does not depend on the map order\<close>

lemma get_loop_filter:
  "get_loop es row key =
     (case filter (\<lambda>e. Contains (fst e) key \<and> snd e < length row) es of
        [] \<Rightarrow> [] | e # _ \<Rightarrow> TrimSpace (row ! snd e))"
  by (induction es row key rule: get_loop.induct) simp_all

lemma short_list_mset:
  assumes "length xs \<le> 1" and "mset xs = mset ys"
  shows "xs = ys"
proof (cases xs)
  case Nil
  with assms(2) show ?thesis by simp
next
  case (Cons x xs')
  with assms(1) have xs: "xs = [x]" by simp
  with assms(2) have "mset ys = {#x#}" by simp
  then have "ys = [x]" by (simp only: mset_single_iff)
  with xs show ?thesis by simp
qed

lemma get_loop_perm:
  assumes "mset es1 = mset es2"
    and "length (filter (\<lambda>k. Contains k key) (map fst es1)) \<le> 1"
  shows "get_loop es1 row key = get_loop es2 row key"
proof -
  let ?Q = "\<lambda>e. Contains (fst e) key \<and> snd e < length row"
  have "length (filter ?Q es1) \<le> length (filter (\<lambda>e. Contains (fst e) key) es1)"
  proof -
    have "filter ?Q es1 = filter (\<lambda>e. snd e < length row) (filter (\<lambda>e. Contains (fst e) key) es1)"
      by (simp add: conj_commute)
    then show ?thesis by (simp only: length_filter_le)
  qed
  also have "\<dots> = length (filter (\<lambda>k. Contains k key) (map fst es1))"
    by (simp add: filter_map comp_def)
  finally have "length (filter ?Q es1) \<le> 1" using assms(2) by simp
  moreover have "mset (filter ?Q es1) = mset (filter ?Q es2)"
    using assms(1) by (simp only: mset_filter)
  ultimately have "filter ?Q es1 = filter ?Q es2" by (rule short_list_mset)
  then show ?thesis by (simp only: get_loop_filter)
qed

lemma get_deterministic:
  assumes "range_contract (rangeHeader ord1 i key)" and "range_contract (rangeHeader ord2 i key)"
    and "length (filter (\<lambda>k. Contains k key) (map fst h)) \<le> 1"
  shows "get ord1 h i row key = get ord2 h i row key"
proof -
  have m1: "mset (rangeHeader ord1 i key h) = mset h" and m2: "mset (rangeHeader ord2 i key h) = mset h"
    using assms(1,2) by (simp_all add: range_contract_def)
  have "mset (map fst (rangeHeader ord1 i key h)) = mset (map fst h)"
    using m1 by (simp only: mset_map)
  then have "mset (filter (\<lambda>k. Contains k key) (map fst (rangeHeader ord1 i key h)))
      = mset (filter (\<lambda>k. Contains k key) (map fst h))"
    by (simp only: mset_filter)
  then have "length (filter (\<lambda>k. Contains k key) (map fst (rangeHeader ord1 i key h)))
      = length (filter (\<lambda>k. Contains k key) (map fst h))"
    by (rule mset_eq_length)
  with assms(3) have "length (filter (\<lambda>k. Contains k key) (map fst (rangeHeader ord1 i key h))) \<le> 1"
    by simp
  moreover have "mset (rangeHeader ord1 i key h) = mset (rangeHeader ord2 i key h)"
    using m1 m2 by simp
  ultimately show ?thesis
    unfolding get_def by (intro get_loop_perm)
qed

lemma rows_deterministic:
  assumes "\<forall>i key. range_contract (rangeHeader ord1 i key)"
    and "\<forall>i key. range_contract (rangeHeader ord2 i key)"
    and "unambiguous h"
  shows "keepRow lib ord1 h = keepRow lib ord2 h" and "rowSale lib ord1 h = rowSale lib ord2 h"
proof -
  have g: "get ord1 h i row key = get ord2 h i row key" if "key \<in> set tokens" for i row key
  proof -
    from that assms(3) have "length (filter (\<lambda>k. Contains k key) (map fst h)) \<le> 1"
      by (simp add: unambiguous_def list_all_iff)
    with assms(1,2) show ?thesis by (intro get_deterministic) simp_all
  qed
  have t: "''date'' \<in> set tokens" "''amount'' \<in> set tokens" "''customer'' \<in> set tokens"
    "''product'' \<in> set tokens" "''status'' \<in> set tokens"
    by (simp_all add: tokens_def)
  show "keepRow lib ord1 h = keepRow lib ord2 h"
    by (simp add: fun_eq_iff keepRow_code g [OF t(1)])
  show "rowSale lib ord1 h = rowSale lib ord2 h"
    by (simp add: fun_eq_iff rowSale_code mkSale_def g [OF t(1)] g [OF t(2)] g [OF t(3)]
        g [OF t(4)] g [OF t(5)])
qed

text \<open>
  Claim C9. Take a CSV input whose header map has, for each of the five logical fields,
  at most one key containing the field's token. Then the result of \<^verbatim>\<open>parseCSV\<close> does
  not depend on the order in which the header map is visited: any two runs, each free to
  visit the map in a different order at every lookup, return the same records and the
  same error.
\<close>

theorem parseCSV_deterministic:
  assumes "\<forall>i key. range_contract (rangeHeader ord1 i key)"
    and "\<forall>i key. range_contract (rangeHeader ord2 i key)"
    and "unambiguous (headerMap lib (hd (fst (ReadAll lib r))))"
  shows "parseCSV lib ord1 r = parseCSV lib ord2 r"
  unfolding parseCSV_cases
  by (simp only: rows_deterministic [OF assms])

theorem parseCSV_deterministic_witness:
  "unambiguous (headerMap demoLib (hd (fst (ReadAll demoLib exampleCsv)))) \<and>
   range_contract (rangeHeader insertionOrder 0 ''date'') \<and>
   range_contract (rangeHeader reverseOrder 0 ''date'') \<and>
   rangeHeader reverseOrder 0 ''date'' (headerMap demoLib (hd exampleRecords))
     \<noteq> rangeHeader insertionOrder 0 ''date'' (headerMap demoLib (hd exampleRecords)) \<and>
   parseCSV demoLib reverseOrder exampleCsv =
     ([\<lparr>Date = DateUTC 2025 7 1, Customer = ''Acme'', Product = ''WidgetA'', Amount = Fin 199, Status = ''paid''\<rparr>,
       \<lparr>Date = DateUTC 2025 7 4, Customer = ''Zen'', Product = ''WidgetA'', Amount = Fin 199, Status = ''overdue''\<rparr>],
      None)"
proof -
  have h: "hd exampleRecords = [''date'', ''customer'', ''product'', ''amount'', ''status'']"
    by (simp add: exampleRecords_def)
  have u: "unambiguous (headerMap demoLib (hd (fst (ReadAll demoLib exampleCsv))))"
    unfolding demo_readAll fst_conv h demo_header
    by (simp add: unambiguous_def tokens_def)
  have r1: "\<forall>i key. range_contract (rangeHeader insertionOrder i key)"
    by (simp add: range_contract_def insertionOrder_def)
  have r2: "\<forall>i key. range_contract (rangeHeader reverseOrder i key)"
    by (simp add: range_contract_def reverseOrder_def)
  have d: "rangeHeader reverseOrder 0 ''date'' (headerMap demoLib (hd exampleRecords))
     \<noteq> rangeHeader insertionOrder 0 ''date'' (headerMap demoLib (hd exampleRecords))"
    unfolding h demo_header by (simp add: reverseOrder_def insertionOrder_def)
  show ?thesis
    using parseCSV_deterministic [OF r2 r1 u] u r1 r2 d
    by (simp add: demo_parseCSV)
qed

subsection \<open>Overdue detection\<close>

text \<open>
  Every record that \<^verbatim>\<open>parseCSV\<close> returns has a lower-cased status: line 119 of the
  source is the only place where a record is made, and \<^verbatim>\<open>computeKPIs\<close> is called on
  the result of \<^verbatim>\<open>parseCSV\<close> only.
\<close>

lemma parseCSV_status_lower:
  assumes "lower_contract (ToLower lib)" and "s \<in> set (fst (parseCSV lib ord r))"
  shows "ToLower lib (Status s) = Status s"
proof -
  have "Status (rowSale lib ord h ir) = ToLower lib (get ord h (fst ir) (snd ir) ''status'')" for h ir
    by (simp add: rowSale_def mkSale_def Let_def)
  then have "ToLower lib (Status (rowSale lib ord h ir)) = Status (rowSale lib ord h ir)" for h ir
    using assms(1) by (simp add: lower_contract_def)
  with assms(2) show ?thesis
    by (auto simp add: parseCSV_cases split: option.splits if_splits)
qed

lemma lowerOverdue_eq: "ToLower lib (Status s) = Status s \<Longrightarrow> lowerOverdue lib s = isOverdue s"
  by (simp add: lowerOverdue_def isOverdue_def)

lemma asciiLower_contract: "lower_contract (ToLower demoLib)"
  by (simp add: lower_contract_def demoLib_def asciiLower_def toLowerChar_def)

text \<open>
  Claim C4. For every record list that ingestion hands to the aggregator, a record is
  counted as overdue exactly when its lower-cased status contains one of "overdue",
  "unpaid", "due": the overdue count is the number of such records, and the overdue
  total is the sum of their amounts, added in binary64 in the order of the sorted
  records. Total revenue is the sum of the amounts of all the records, the overdue ones
  included, added in the same way.
\<close>

theorem overdue_by_lowercased_status:
  assumes "sort_contract sales_less (sortSales lib)" and "lower_contract (ToLower lib)"
  shows "OverdueCount (computeKPIs lib ord' (fst (parseCSV lib ord r)))
           = length (filter (lowerOverdue lib) (fst (parseCSV lib ord r))) \<and>
         OverdueTotal (computeKPIs lib ord' (fst (parseCSV lib ord r)))
           = fsum (map Amount (filter (lowerOverdue lib) (sortSales lib (fst (parseCSV lib ord r))))) \<and>
         TotalRevenue (computeKPIs lib ord' (fst (parseCSV lib ord r)))
           = fsum (map Amount (sortSales lib (fst (parseCSV lib ord r))))"
proof -
  define sales where "sales = fst (parseCSV lib ord r)"
  note p = contract_perm [OF assms(1)]
  have low: "lowerOverdue lib s = isOverdue s" if "s \<in> set sales" for s
    using that parseCSV_status_lower [OF assms(2), of s ord r]
    by (simp add: sales_def lowerOverdue_eq)
  have f1: "filter (lowerOverdue lib) sales = filter isOverdue sales"
    using low by (intro filter_cong refl) simp
  have "set (sortSales lib sales) = set sales"
    using p by (intro perm_set) simp
  then have f2: "filter (lowerOverdue lib) (sortSales lib sales) = filter isOverdue (sortSales lib sales)"
    using low by (intro filter_cong refl) simp
  show ?thesis
    unfolding sales_def [symmetric] f1 f2
    using kpi_totals(1,3,4) [OF p, of ord' sales] by simp
qed

theorem overdue_by_lowercased_status_witness:
  "sort_contract sales_less (sortSales demoLib) \<and> lower_contract (ToLower demoLib) \<and>
   exampleRecords ! 3 = [''2025-07-04'', ''Zen'', ''WidgetA'', ''199'', ''Overdue''] \<and>
   map Status (fst (parseCSV demoLib insertionOrder exampleCsv)) = [''paid'', ''overdue''] \<and>
   OverdueCount (computeKPIs demoLib insertionOrder (fst (parseCSV demoLib insertionOrder exampleCsv))) = 1 \<and>
   OverdueTotal (computeKPIs demoLib insertionOrder (fst (parseCSV demoLib insertionOrder exampleCsv)))
     = Fin 199 \<and>
   TotalRevenue (computeKPIs demoLib insertionOrder (fst (parseCSV demoLib insertionOrder exampleCsv)))
     = Fin 398"
proof -
  define sales where "sales = fst (parseCSV demoLib insertionOrder exampleCsv)"
  have s: "sales =
     [\<lparr>Date = DateUTC 2025 7 1, Customer = ''Acme'', Product = ''WidgetA'', Amount = Fin 199, Status = ''paid''\<rparr>,
      \<lparr>Date = DateUTC 2025 7 4, Customer = ''Zen'', Product = ''WidgetA'', Amount = Fin 199, Status = ''overdue''\<rparr>]"
    by (simp add: sales_def demo_parseCSV)
  have srt: "sortSales demoLib sales = sales"
    unfolding s by (simp add: demoLib_def july_instants)
  have l: "filter (lowerOverdue demoLib) sales = [sales ! 1]"
    unfolding s by (simp add: lowerOverdue_def demoLib_def asciiLower_def toLowerChar_def)
  have a: "fsum (map Amount [sales ! 1]) = Fin 199" "fsum (map Amount sales) = Fin 398"
    unfolding s by (simp_all add: fsum_def)
  have r: "exampleRecords ! 3 = [''2025-07-04'', ''Zen'', ''WidgetA'', ''199'', ''Overdue'']"
    by (simp add: exampleRecords_def)
  have m: "map Status sales = [''paid'', ''overdue'']" unfolding s by simp
  show ?thesis
    using overdue_by_lowercased_status [OF demoLib_sorts(1) asciiLower_contract, of insertionOrder insertionOrder exampleCsv]
      demoLib_sorts(1) asciiLower_contract r m
    unfolding sales_def [symmetric] srt l a by simp
qed

end
